theory Spec2Isabelle
  imports Main "HOL-Library.List_Lexorder"
begin

unbundle bit_operations_syntax

section \<open>asartool: data model\<close>

text \<open>
  A Python \<open>str\<close> is a sequence of Unicode code points, so it is modelled as a list of
  natural numbers; \<open>bytes\<close> are modelled as a list of 8-bit characters. The function
  \<open>u\<close> writes an ASCII literal of the source as a \<open>str\<close>.
\<close>

type_synonym pystr = "nat list"
type_synonym bytes = "char list"

definition u :: "string \<Rightarrow> pystr" where
  "u s = map of_char s"

text \<open>
  The header of an archive is the value \<open>json.loads\<close> returns, or the nested \<open>dict\<close>
  \<open>_path_to_dict\<close> builds: objects keep their entries in insertion order, as Python's
  \<open>dict\<close> does.
\<close>

datatype json = JObj "(pystr \<times> json) list" | JStr pystr | JNum int

text \<open>
  The exceptions of the program. \<open>SeekError\<close> is the failure of \<open>seek\<close> at a negative
  position, a \<open>ValueError\<close> on a \<open>BytesIO\<close> and an \<open>OSError\<close> on a file. \<open>NotModelled\<close> is
  no exception: it marks the inputs on which the model does not say what the program
  does.
\<close>

datatype error =
    PermissionError | OtherOSError | StructError | OpenFailed
  | FileNotFoundError | FileExistsError | KeyError | TypeError | ValueError | AttributeError
  | SeekError | NotModelled

subsection \<open>\<open>round_up\<close>\<close>

definition round_up :: "int \<Rightarrow> int \<Rightarrow> int" where
  "round_up i m = (i + m - 1) AND NOT (m - 1)"

subsection \<open>Dictionaries\<close>

text \<open>\<open>d[k] = v\<close>: an existing key keeps its position, a new key goes to the end.\<close>

fun dict_set :: "(pystr \<times> 'v) list \<Rightarrow> pystr \<Rightarrow> 'v \<Rightarrow> (pystr \<times> 'v) list" where
  "dict_set [] k v = [(k, v)]"
| "dict_set ((k', v') # d) k v = (if k' = k then (k, v) # d else (k', v') # dict_set d k v)"

subsection \<open>Paths and exclusion patterns\<close>

text \<open>\<open>pattern in file_path\<close> on two strings: the pattern occurs as a substring.\<close>

fun is_substring :: "pystr \<Rightarrow> pystr \<Rightarrow> bool" where
  "is_substring p [] = (p = [])"
| "is_substring p (c # s) = (take (length p) (c # s) = p \<or> is_substring p s)"

fun should_exclude :: "pystr list \<Rightarrow> pystr \<Rightarrow> bool" where
  "should_exclude [] file_path = False"
| "should_exclude (pattern # ps) file_path =
     (if is_substring pattern file_path then True else should_exclude ps file_path)"

text \<open>
  \<open>os.path.join\<close> of a directory and one name, as POSIX does it; \<open>DirEntry.path\<close> is
  this join of the scanned path and the entry's name.
\<close>

definition path_join :: "pystr \<Rightarrow> pystr \<Rightarrow> pystr" where
  "path_join a b =
     (if b \<noteq> [] \<and> hd b = 47 then b
      else if a = [] \<or> last a = 47 then a @ b
      else a @ [47] @ b)"

subsection \<open>\<open>str(n)\<close> and \<open>int(s)\<close>\<close>

definition digit_char :: "nat \<Rightarrow> nat" where
  "digit_char d = 48 + d"

fun str_nat :: "nat \<Rightarrow> pystr" where
  "str_nat n = (if n < 10 then [digit_char n] else str_nat (n div 10) @ [digit_char (n mod 10)])"

declare str_nat.simps [simp del]

definition str_int :: "int \<Rightarrow> pystr" where
  "str_int i = (if i < 0 then 45 # str_nat (nat (- i)) else str_nat (nat i))"

subsection \<open>The scanned directory\<close>

text \<open>
  What \<open>_path_to_dict\<close> observes of the file system: \<open>os.scandir\<close> either fails or
  yields entries; each entry has its name, the answer of \<open>os.path.isdir(f.path)\<close> (which
  follows symbolic links), the answer of \<open>f.is_symlink()\<close>, the outcome of \<open>f.stat()\<close>,
  and, for the entries the code recurses into, the scan of that path.
\<close>

datatype stat_result = StatOk nat | StatFail error

datatype entry = Entry pystr bool bool stat_result listing
and listing = ScanOk "entry list" | ScanFail error

record bstate =
  offset :: nat
  paths :: "pystr list"

definition files_key :: pystr where "files_key = u ''files''"
definition link_key :: pystr where "link_key = u ''link''"
definition size_key :: pystr where "size_key = u ''size''"
definition offset_key :: pystr where "offset_key = u ''offset''"

definition dir_node :: "(pystr \<times> json) list \<Rightarrow> json" where
  "dir_node fs = JObj [(files_key, JObj fs)]"

definition link_node :: "pystr \<Rightarrow> json" where
  "link_node target = JObj [(link_key, JStr target)]"

definition file_node :: "nat \<Rightarrow> nat \<Rightarrow> json" where
  "file_node sz off = JObj [(size_key, JNum (int sz)), (offset_key, JStr (str_nat off))]"

text \<open>
  \<open>_path_to_dict\<close>, with the two closed-over variables \<open>offset\<close> and \<open>paths\<close> threaded
  as a state. \<open>scan_loop\<close> is the body of the \<open>for\<close> loop, with the entries of
  \<open>result['files']\<close> collected so far. A \<open>PermissionError\<close> leaves the loop and keeps
  what was collected; any other error leaves \<open>compress\<close>. The operating system's
  \<open>os.path.realpath\<close> is the parameter \<open>realpath\<close>.
\<close>

fun path_to_dict ::
  "(pystr \<Rightarrow> pystr) \<Rightarrow> pystr list \<Rightarrow> bstate \<Rightarrow> pystr \<Rightarrow> listing \<Rightarrow> error + (json \<times> bstate)"
and scan_loop ::
  "(pystr \<Rightarrow> pystr) \<Rightarrow> pystr list \<Rightarrow> bstate \<Rightarrow> pystr \<Rightarrow> (pystr \<times> json) list \<Rightarrow> entry list
     \<Rightarrow> error + ((pystr \<times> json) list \<times> bstate)"
where
  "path_to_dict realpath pats st dir_path (ScanFail e) =
     (if e = PermissionError then Inr (dir_node [], st) else Inl e)"
| "path_to_dict realpath pats st dir_path (ScanOk es) =
     (case scan_loop realpath pats st dir_path [] es of
        Inl e \<Rightarrow> Inl e
      | Inr (fs, st') \<Rightarrow> Inr (dir_node fs, st'))"
| "scan_loop realpath pats st dir_path acc [] = Inr (acc, st)"
| "scan_loop realpath pats st dir_path acc (Entry name isdir islink sr sub # es) =
     (let f_path = path_join dir_path name in
      if should_exclude pats f_path then scan_loop realpath pats st dir_path acc es
      else if isdir then
        (case path_to_dict realpath pats st f_path sub of
           Inl e \<Rightarrow> Inl e
         | Inr (d, st') \<Rightarrow> scan_loop realpath pats st' dir_path (dict_set acc name d) es)
      else if islink then
        scan_loop realpath pats st dir_path (dict_set acc name (link_node (realpath name))) es
      else
        (let st1 = st\<lparr>paths := paths st @ [f_path]\<rparr> in
         case sr of
           StatFail e \<Rightarrow> (if e = PermissionError then Inr (acc, st1) else Inl e)
         | StatOk sz \<Rightarrow>
             scan_loop realpath pats (st1\<lparr>offset := offset st1 + sz\<rparr>) dir_path
               (dict_set acc name (file_node sz (offset st1))) es))"

subsection \<open>\<open>json.dumps(header, sort_keys=True, separators=(',', ':'))\<close>\<close>

text \<open>
  The encoder of the standard library, on the values a header is made of. Strings are
  written by \<open>encode_basestring_ascii\<close> (the default \<open>ensure_ascii=True\<close>): the printable
  ASCII characters as they are, the others escaped, a code point beyond the basic plane
  as a surrogate pair. The output is ASCII, so \<open>.encode('utf-8')\<close> leaves it as it is
  and the bytes are given directly.
\<close>

definition hex_digit :: "nat \<Rightarrow> char" where
  "hex_digit d = (if d < 10 then char_of (48 + d) else char_of (87 + d))"

definition hex4 :: "nat \<Rightarrow> bytes" where
  "hex4 n = [hex_digit (n div 4096 mod 16), hex_digit (n div 256 mod 16),
             hex_digit (n div 16 mod 16), hex_digit (n mod 16)]"

definition bslash :: char where "bslash = CHR 0x5C"
definition dquote :: char where "dquote = CHR 0x22"

definition esc_char :: "nat \<Rightarrow> bytes" where
  "esc_char c =
     (if c = 92 then [bslash, bslash]
      else if c = 34 then [bslash, dquote]
      else if c = 8 then [bslash, CHR ''b'']
      else if c = 12 then [bslash, CHR ''f'']
      else if c = 10 then [bslash, CHR ''n'']
      else if c = 13 then [bslash, CHR ''r'']
      else if c = 9 then [bslash, CHR ''t'']
      else if 32 \<le> c \<and> c \<le> 126 then [char_of c]
      else if c < 65536 then bslash # CHR ''u'' # hex4 c
      else (let n = c - 65536;
                s1 = 55296 OR (drop_bit 10 n AND 1023);
                s2 = 56320 OR (n AND 1023)
            in bslash # CHR ''u'' # hex4 s1 @ bslash # CHR ''u'' # hex4 s2))"

definition encode_basestring_ascii :: "pystr \<Rightarrow> bytes" where
  "encode_basestring_ascii s = dquote # concat (map esc_char s) @ [dquote]"

fun join_comma :: "bytes list \<Rightarrow> bytes" where
  "join_comma [] = []"
| "join_comma [x] = x"
| "join_comma (x # y # xs) = x @ CHR '','' # join_comma (y # xs)"

fun dumps :: "json \<Rightarrow> bytes" where
  "dumps (JObj kvs) =
     CHR ''{'' # join_comma (map (\<lambda>(k, v). encode_basestring_ascii k @ CHR '':'' # dumps v)
                                (sort_key fst kvs)) @ [CHR ''}'']"
| "dumps (JStr s) = encode_basestring_ascii s"
| "dumps (JNum i) = map char_of (str_int i)"

subsection \<open>\<open>struct.pack('<4I', ...)\<close> and \<open>struct.unpack\<close>\<close>

definition le32 :: "int \<Rightarrow> bytes" where
  "le32 n = [char_of n, char_of (n div 256), char_of (n div 65536), char_of (n div 16777216)]"

definition fits_u32 :: "int \<Rightarrow> bool" where
  "fits_u32 n = (0 \<le> n \<and> n < 4294967296)"

definition struct_pack4 :: "int \<Rightarrow> int \<Rightarrow> int \<Rightarrow> int \<Rightarrow> error + bytes" where
  "struct_pack4 a b c d =
     (if fits_u32 a \<and> fits_u32 b \<and> fits_u32 c \<and> fits_u32 d
      then Inr (le32 a @ le32 b @ le32 c @ le32 d) else Inl StructError)"

fun unle32 :: "bytes \<Rightarrow> int" where
  "unle32 [b0, b1, b2, b3] =
     of_char b0 + 256 * of_char b1 + 65536 * of_char b2 + 16777216 * of_char b3"
| "unle32 bs = 0"

definition struct_unpack4 :: "bytes \<Rightarrow> error + (int \<times> int \<times> int \<times> int)" where
  "struct_unpack4 bs =
     (if length bs \<noteq> 16 then Inl StructError
      else Inr (unle32 (take 4 bs), unle32 (take 4 (drop 4 bs)),
                unle32 (take 4 (drop 8 bs)), unle32 (take 4 (drop 12 bs))))"

subsection \<open>\<open>Asar.compress\<close>\<close>

record asar =
  path :: pystr
  fp :: bytes
  header :: json
  base_offset :: int

text \<open>
  \<open>_paths_to_bytes\<close>: \<open>read_file\<close> is what opening and reading a path gives, \<open>None\<close>
  when either raises; the failure is printed and the loop goes on.
\<close>

fun paths_to_bytes :: "(pystr \<Rightarrow> bytes option) \<Rightarrow> pystr list \<Rightarrow> bytes" where
  "paths_to_bytes read_file [] = []"
| "paths_to_bytes read_file (file_path # ps) =
     (case read_file file_path of
        Some content \<Rightarrow> content @ paths_to_bytes read_file ps
      | None \<Rightarrow> paths_to_bytes read_file ps)"

definition pad_header :: "bytes \<Rightarrow> bytes" where
  "pad_header header_json =
     (let header_string_size = int (length header_json);
          aligned_size = round_up header_string_size 4;
          diff = aligned_size - header_string_size
      in if diff \<noteq> 0 then header_json @ replicate (nat diff) (CHR 0x00) else header_json)"

definition header_record :: "bytes \<Rightarrow> error + bytes" where
  "header_record header_json =
     (let header_string_size = int (length header_json);
          data_size = 4;
          aligned_size = round_up header_string_size data_size;
          header_size = aligned_size + 8;
          header_object_size = aligned_size + data_size
      in struct_pack4 data_size header_size header_object_size header_string_size)"

definition compress ::
  "(pystr \<Rightarrow> pystr) \<Rightarrow> (pystr \<Rightarrow> bytes option) \<Rightarrow> pystr \<Rightarrow> pystr list \<Rightarrow> listing \<Rightarrow> error + asar"
where
  "compress realpath read_file p exclude_patterns root =
     (case path_to_dict realpath exclude_patterns \<lparr>offset = 0, paths = []\<rparr> p root of
        Inl e \<Rightarrow> Inl e
      | Inr (hdr, st) \<Rightarrow>
          (let header_json = dumps hdr;
               header_string_size = int (length header_json)
           in case header_record header_json of
                Inl e \<Rightarrow> Inl e
              | Inr rec \<Rightarrow>
                  Inr \<lparr>path = p,
                       fp = rec @ pad_header header_json @ paths_to_bytes read_file (paths st),
                       header = hdr,
                       base_offset = round_up (16 + header_string_size) 4\<rparr>))"

subsection \<open>\<open>json.loads\<close>\<close>

text \<open>
  The decoder of the standard library (\<open>scanstring\<close>, \<open>JSONObject\<close>, \<open>scan_once\<close>), on
  the part of JSON a header written by \<open>compress\<close> uses: objects, strings and integers,
  with the white space the decoder skips. \<open>None\<close> stands for a \<open>JSONDecodeError\<close>, and
  also for a text outside this part (arrays, \<open>true\<close>, \<open>false\<close>, \<open>null\<close>, numbers with a
  fraction or an exponent, bytes above 127, which \<open>.decode('utf-8')\<close> would combine):
  on \<open>None\<close> the model does not decide whether \<open>Asar.open\<close> fails. CPython's limit on
  the number of digits of an integer is not modelled either. The recursion of the decoder
  is bounded by a fuel argument; \<open>loads\<close> gives it the length of the text, which is
  enough for every text (a call consumes at least one character).
\<close>

definition is_ws :: "char \<Rightarrow> bool" where
  "is_ws c = (c = CHR '' '' \<or> c = CHR 0x09 \<or> c = CHR 0x0A \<or> c = CHR 0x0D)"

definition skip_ws :: "bytes \<Rightarrow> bytes" where
  "skip_ws s = dropWhile is_ws s"

definition hex_val :: "char \<Rightarrow> nat option" where
  "hex_val c =
     (let n = (of_char c :: nat) in
      if 48 \<le> n \<and> n \<le> 57 then Some (n - 48)
      else if 97 \<le> n \<and> n \<le> 102 then Some (n - 87)
      else if 65 \<le> n \<and> n \<le> 70 then Some (n - 55)
      else None)"

text \<open>\<open>_decode_uXXXX\<close>: the four characters after \<open>\u\<close> as a hexadecimal number.\<close>

definition decode_uXXXX :: "bytes \<Rightarrow> nat option" where
  "decode_uXXXX s =
     (case map hex_val (take 4 s) of
        [Some a, Some b, Some c, Some d] \<Rightarrow> Some (4096 * a + 256 * b + 16 * c + d)
      | _ \<Rightarrow> None)"

definition backslash_table :: "char \<Rightarrow> nat option" where
  "backslash_table esc =
     (if esc = dquote then Some 34
      else if esc = bslash then Some 92
      else if esc = CHR ''/'' then Some 47
      else if esc = CHR ''b'' then Some 8
      else if esc = CHR ''f'' then Some 12
      else if esc = CHR ''n'' then Some 10
      else if esc = CHR ''r'' then Some 13
      else if esc = CHR ''t'' then Some 9
      else None)"

text \<open>
  \<open>scanstring\<close>, from the character after the opening quote; the characters decoded so
  far are accumulated in reverse. An escaped high surrogate directly followed by an
  escaped low surrogate is combined into one code point.
\<close>

function scanstring :: "bytes \<Rightarrow> pystr \<Rightarrow> (pystr \<times> bytes) option" where
  "scanstring [] acc = None"
| "scanstring (c # s) acc =
     (if c = dquote then Some (rev acc, s)
      else if c = bslash then
        (case s of
           [] \<Rightarrow> None
         | esc # s1 \<Rightarrow>
             if esc \<noteq> CHR ''u'' then
               (case backslash_table esc of
                  None \<Rightarrow> None
                | Some ch \<Rightarrow> scanstring s1 (ch # acc))
             else
               (case decode_uXXXX s1 of
                  None \<Rightarrow> None
                | Some uni \<Rightarrow>
                    if 55296 \<le> uni \<and> uni \<le> 56319 \<and> take 2 (drop 4 s1) = [bslash, CHR ''u''] then
                      (case decode_uXXXX (drop 6 s1) of
                         None \<Rightarrow> None
                       | Some uni2 \<Rightarrow>
                           if 56320 \<le> uni2 \<and> uni2 \<le> 57343 then
                             scanstring (drop 10 s1)
                               ((65536 + (push_bit 10 (uni - 55296) OR (uni2 - 56320))) # acc)
                           else scanstring (drop 4 s1) (uni # acc))
                    else scanstring (drop 4 s1) (uni # acc)))
      else if (of_char c :: nat) < 32 then None
      else if (of_char c :: nat) \<ge> 128 then None
      else scanstring s (of_char c # acc))"
  by pat_completeness auto
termination
  by (relation "measure (\<lambda>(s, acc). length s)") auto

text \<open>An integer: an optional sign, then \<open>0\<close> or digits that do not start with \<open>0\<close>.\<close>

definition is_digit :: "char \<Rightarrow> bool" where
  "is_digit c = (48 \<le> (of_char c :: nat) \<and> (of_char c :: nat) \<le> 57)"

fun digits_value :: "nat \<Rightarrow> bytes \<Rightarrow> nat" where
  "digits_value acc [] = acc"
| "digits_value acc (c # s) = digits_value (10 * acc + (of_char c - 48)) s"

definition parse_number :: "bytes \<Rightarrow> (json \<times> bytes) option" where
  "parse_number s =
     (let neg = (s \<noteq> [] \<and> hd s = CHR ''-'');
          s1 = (if neg then tl s else s);
          ds = (if s1 \<noteq> [] \<and> hd s1 = CHR ''0'' then [CHR ''0''] else takeWhile is_digit s1);
          rest = drop (length ds) s1
      in if ds = [] then None
         else if rest \<noteq> [] \<and> (hd rest = CHR ''.'' \<or> hd rest = CHR ''e'' \<or> hd rest = CHR ''E'') then None
         else Some (JNum (if neg then - int (digits_value 0 ds) else int (digits_value 0 ds)), rest))"

text \<open>\<open>dict(pairs)\<close>: a repeated key keeps its first position and takes the last value.\<close>

definition dict_of_pairs :: "(pystr \<times> json) list \<Rightarrow> (pystr \<times> json) list" where
  "dict_of_pairs pairs = foldl (\<lambda>d (k, v). dict_set d k v) [] pairs"

fun parse_value :: "nat \<Rightarrow> bytes \<Rightarrow> (json \<times> bytes) option"
and parse_pairs :: "nat \<Rightarrow> bytes \<Rightarrow> (pystr \<times> json) list \<Rightarrow> (json \<times> bytes) option"
where
  "parse_value 0 s = None"
| "parse_value (Suc n) [] = None"
| "parse_value (Suc n) (c # s) =
     (if c = dquote then
        (case scanstring s [] of None \<Rightarrow> None | Some (str, r) \<Rightarrow> Some (JStr str, r))
      else if c = CHR ''{'' then
        (case skip_ws s of
           [] \<Rightarrow> None
         | d # s1 \<Rightarrow>
             if d = CHR ''}'' then Some (JObj [], s1)
             else if d = dquote then parse_pairs n s1 []
             else None)
      else parse_number (c # s))"
| "parse_pairs 0 s pairs = None"
| "parse_pairs (Suc n) s pairs =
     (case scanstring s [] of
        None \<Rightarrow> None
      | Some (key, s1) \<Rightarrow>
          (case skip_ws s1 of
             [] \<Rightarrow> None
           | c # s2 \<Rightarrow>
               if c \<noteq> CHR '':'' then None
               else
                 (case parse_value n (skip_ws s2) of
                    None \<Rightarrow> None
                  | Some (v, s3) \<Rightarrow>
                      (case skip_ws s3 of
                         [] \<Rightarrow> None
                       | d # s4 \<Rightarrow>
                           if d = CHR ''}'' then Some (JObj (dict_of_pairs (pairs @ [(key, v)])), s4)
                           else if d \<noteq> CHR '','' then None
                           else
                             (case skip_ws s4 of
                                [] \<Rightarrow> None
                              | e # s5 \<Rightarrow>
                                  if e \<noteq> dquote then None
                                  else parse_pairs n s5 (pairs @ [(key, v)]))))))"

definition loads :: "bytes \<Rightarrow> json option" where
  "loads s =
     (case parse_value (Suc (length s)) (skip_ws s) of
        None \<Rightarrow> None
      | Some (v, r) \<Rightarrow> if skip_ws r = [] then Some v else None)"

subsection \<open>\<open>Asar.open\<close>\<close>

text \<open>
  \<open>file\<close> is the content of the file at the path, \<open>None\<close> when it cannot be opened.
  Every exception is caught and raised again as one kind of failure. Where \<open>loads\<close> gives
  \<open>None\<close> the header is not JSON, and \<open>open\<close> fails, or it is JSON outside the modelled
  part, and \<open>open\<close> may succeed: the answer is \<open>NotModelled\<close>.
\<close>

definition asar_open :: "pystr \<Rightarrow> bytes option \<Rightarrow> error + asar" where
  "asar_open p file =
     (case file of
        None \<Rightarrow> Inl OpenFailed
      | Some data \<Rightarrow>
          (case struct_unpack4 (take 16 data) of
             Inl e \<Rightarrow> Inl OpenFailed
           | Inr (data_size, header_size, header_object_size, header_string_size) \<Rightarrow>
               (case loads (take (nat header_string_size) (drop 16 data)) of
                  None \<Rightarrow> Inl NotModelled
                | Some h \<Rightarrow>
                    Inr \<lparr>path = p, fp = data, header = h,
                         base_offset = round_up (16 + header_string_size) 4\<rparr>)))"

subsection \<open>Python's operations on a decoded header\<close>

text \<open>
  A header read from a file can be any JSON value, so \<open>k in x\<close> and \<open>x[k]\<close> are modelled
  on every kind of value: on a string \<open>in\<close> is the substring test and indexing by a
  string raises, on a number both raise.
\<close>

fun py_in :: "pystr \<Rightarrow> json \<Rightarrow> error + bool" where
  "py_in k (JObj kvs) = Inr (map_of kvs k \<noteq> None)"
| "py_in k (JStr s) = Inr (is_substring k s)"
| "py_in k (JNum i) = Inl TypeError"

fun py_getitem :: "json \<Rightarrow> pystr \<Rightarrow> error + json" where
  "py_getitem (JObj kvs) k = (case map_of kvs k of None \<Rightarrow> Inl KeyError | Some v \<Rightarrow> Inr v)"
| "py_getitem (JStr s) k = Inl TypeError"
| "py_getitem (JNum i) k = Inl TypeError"

text \<open>\<open>x.items()\<close> exists on a \<open>dict\<close> only.\<close>

fun py_items :: "json \<Rightarrow> error + (pystr \<times> json) list" where
  "py_items (JObj kvs) = Inr kvs"
| "py_items (JStr s) = Inl AttributeError"
| "py_items (JNum i) = Inl AttributeError"

text \<open>\<open>not x\<close>, for \<open>x\<close> a value or \<open>None\<close>.\<close>

fun py_not :: "json option \<Rightarrow> bool" where
  "py_not None = True"
| "py_not (Some (JObj kvs)) = (kvs = [])"
| "py_not (Some (JStr s)) = (s = [])"
| "py_not (Some (JNum i)) = (i = 0)"

text \<open>
  \<open>int(x)\<close>: a number as it is. A string is stripped of the white space around it and
  is then an optional sign and decimal digits, with single underscores allowed between
  digits; anything else is a \<open>ValueError\<close>. \<open>int\<close> also reads the decimal digits and the
  white space of other scripts: on a string with a character outside printable ASCII
  and its six white-space characters the model does not decide. The sizes the operating
  system reports are 64-bit numbers, far below CPython's limit of 4300 digits for
  \<open>int\<close> and \<open>str\<close>, which is not modelled.
\<close>

definition is_space :: "nat \<Rightarrow> bool" where
  "is_space c = ((9 \<le> c \<and> c \<le> 13) \<or> c = 32)"

definition strip :: "pystr \<Rightarrow> pystr" where
  "strip s = rev (dropWhile is_space (rev (dropWhile is_space s)))"

text \<open>
  The digits of a number, with the value read so far; \<open>after_digit\<close> tells whether the
  character before was a digit, which an underscore and the end of the number need.
\<close>

fun nat_of_digits :: "nat \<Rightarrow> bool \<Rightarrow> pystr \<Rightarrow> nat option" where
  "nat_of_digits acc after_digit [] = (if after_digit then Some acc else None)"
| "nat_of_digits acc after_digit (c # s) =
     (if 48 \<le> c \<and> c \<le> 57 then nat_of_digits (10 * acc + (c - 48)) True s
      else if c = 95 \<and> after_digit then nat_of_digits acc False s
      else None)"

definition int_of_str :: "pystr \<Rightarrow> error + int" where
  "int_of_str s =
     (if list_ex (\<lambda>c. c \<ge> 127 \<or> (c < 32 \<and> \<not> is_space c)) s then Inl NotModelled
      else
        (case strip s of
           [] \<Rightarrow> Inl ValueError
         | c # r \<Rightarrow>
             (case (if c = 45 \<or> c = 43 then nat_of_digits 0 False r
                    else nat_of_digits 0 False (c # r)) of
                None \<Rightarrow> Inl ValueError
              | Some n \<Rightarrow> Inr (if c = 45 then - int n else int n))))"

fun py_int :: "json \<Rightarrow> error + int" where
  "py_int (JNum i) = Inr i"
| "py_int (JStr s) = int_of_str s"
| "py_int (JObj kvs) = Inl TypeError"

definition replace_backslash :: "pystr \<Rightarrow> pystr" where
  "replace_backslash s = map (\<lambda>c. if c = 92 then 47 else c) s"

text \<open>\<open>s.split('/')\<close>: never empty; an empty string gives one empty part.\<close>

fun split_slash :: "pystr \<Rightarrow> pystr list" where
  "split_slash [] = [[]]"
| "split_slash (c # s) =
     (if c = 47 then [] # split_slash s
      else (case split_slash s of [] \<Rightarrow> [[c]] | part # parts \<Rightarrow> (c # part) # parts))"

definition startswith :: "pystr \<Rightarrow> pystr \<Rightarrow> bool" where
  "startswith f prefix = (take (length prefix) f = prefix)"

text \<open>
  \<open>fp.seek(pos)\<close> followed by \<open>fp.read(n)\<close>: a negative position raises, a negative \<open>n\<close>
  reads to the end, and a read past the end is short.
\<close>

definition seek_read :: "bytes \<Rightarrow> int \<Rightarrow> int \<Rightarrow> error + bytes" where
  "seek_read data pos n =
     (if pos < 0 then Inl SeekError
      else Inr (if n < 0 then drop (nat pos) data else take (nat n) (drop (nat pos) data)))"

subsection \<open>\<open>Asar.list_files\<close> and \<open>Asar.get_file_info\<close>\<close>

function walk_files :: "json \<Rightarrow> pystr \<Rightarrow> error + pystr list"
and walk_items :: "(pystr \<times> json) list \<Rightarrow> pystr \<Rightarrow> error + pystr list"
where
  "walk_files files_dict current_path =
     (case files_dict of
        JObj kvs \<Rightarrow> walk_items kvs current_path
      | JStr s \<Rightarrow> Inl AttributeError
      | JNum i \<Rightarrow> Inl AttributeError)"
| "walk_items [] current_path = Inr []"
| "walk_items ((name, info) # rest) current_path =
     (let full_path = replace_backslash (path_join current_path name) in
      case py_in files_key info of
        Inl e \<Rightarrow> Inl e
      | Inr True \<Rightarrow>
          (case info of
             JObj kvs \<Rightarrow>
               (case map_of kvs files_key of
                  None \<Rightarrow> Inl KeyError
                | Some sub \<Rightarrow>
                    (case walk_files sub full_path of
                       Inl e \<Rightarrow> Inl e
                     | Inr below \<Rightarrow>
                         (case walk_items rest current_path of
                            Inl e \<Rightarrow> Inl e
                          | Inr after \<Rightarrow> Inr ((full_path @ [47]) # below @ after))))
           | JStr s \<Rightarrow> Inl TypeError
           | JNum i \<Rightarrow> Inl TypeError)
      | Inr False \<Rightarrow>
          (case walk_items rest current_path of
             Inl e \<Rightarrow> Inl e
           | Inr after \<Rightarrow> Inr (full_path # after)))"
  by pat_completeness auto
termination
proof (relation "measure (\<lambda>x. case x of Inl (j, _) \<Rightarrow> size j
                                      | Inr (kvs, _) \<Rightarrow> size_list (size_prod (\<lambda>_. 0) size) kvs)")
  have m: "map_of kvs k = Some v \<Longrightarrow> size v < Suc (size_list (size_prod (\<lambda>_. 0) size) kvs)"
    for kvs :: "(pystr \<times> json) list" and k v
    by (induction kvs) (auto split: if_splits)
  fix name :: pystr and info :: json and rest :: "(pystr \<times> json) list"
    and current_path x :: pystr and x1 x2
  assume "info = JObj x1" "map_of x1 files_key = Some x2"
  then show "(Inl (x2, x), Inr ((name, info) # rest, current_path))
      \<in> measure (\<lambda>x. case x of Inl (j, _) \<Rightarrow> size j
                            | Inr (kvs, _) \<Rightarrow> size_list (size_prod (\<lambda>_. 0) size) kvs)"
    using m [of x1 files_key x2] by simp
qed auto

definition list_files :: "asar \<Rightarrow> pystr \<Rightarrow> error + pystr list" where
  "list_files a prefix =
     (case py_getitem (header a) files_key of
        Inl e \<Rightarrow> Inl e
      | Inr files_dict \<Rightarrow>
          (case walk_files files_dict [] of
             Inl e \<Rightarrow> Inl e
           | Inr files \<Rightarrow> Inr (filter (\<lambda>f. startswith f prefix) files)))"

record file_info =
  info_path :: pystr
  info_base_offset :: int
  file_count :: nat
  info_header :: json

definition get_file_info :: "asar \<Rightarrow> error + file_info" where
  "get_file_info a =
     (case list_files a [] of
        Inl e \<Rightarrow> Inl e
      | Inr files \<Rightarrow>
          Inr \<lparr>info_path = path a, info_base_offset = base_offset a,
               file_count = length files, info_header = header a\<rparr>)"

subsection \<open>\<open>Asar.extract_file\<close>\<close>

fun find_file :: "json \<Rightarrow> pystr list \<Rightarrow> error + json option" where
  "find_file files_dict [] = Inr None"
| "find_file files_dict (name # rest) =
     (case py_in name files_dict of
        Inl e \<Rightarrow> Inl e
      | Inr False \<Rightarrow> Inr None
      | Inr True \<Rightarrow>
          (case py_getitem files_dict name of
             Inl e \<Rightarrow> Inl e
           | Inr node \<Rightarrow>
               if rest = [] then Inr (Some node)
               else
                 (case py_in files_key node of
                    Inl e \<Rightarrow> Inl e
                  | Inr True \<Rightarrow>
                      (case py_getitem node files_key of
                         Inl e \<Rightarrow> Inl e
                       | Inr sub \<Rightarrow> find_file sub rest)
                  | Inr False \<Rightarrow> Inr None)))"

text \<open>The two reads of \<open>extract_file\<close> and \<open>_extract_file\<close>, for a node with an offset.\<close>

definition read_entry :: "asar \<Rightarrow> json \<Rightarrow> error + bytes" where
  "read_entry a info =
     (case py_getitem info offset_key of
        Inl e \<Rightarrow> Inl e
      | Inr off \<Rightarrow>
          (case py_int off of
             Inl e \<Rightarrow> Inl e
           | Inr ofs \<Rightarrow>
               if base_offset a + ofs < 0 then Inl SeekError
               else
                 (case py_getitem info size_key of
                    Inl e \<Rightarrow> Inl e
                  | Inr sz \<Rightarrow>
                      (case py_int sz of
                         Inl e \<Rightarrow> Inl e
                       | Inr n \<Rightarrow> seek_read (fp a) (base_offset a + ofs) n))))"

definition extract_file :: "asar \<Rightarrow> pystr \<Rightarrow> error + bytes" where
  "extract_file a file_path =
     (let path_parts = split_slash (replace_backslash file_path) in
      case py_getitem (header a) files_key of
        Inl e \<Rightarrow> Inl e
      | Inr files_dict \<Rightarrow>
          (case find_file files_dict path_parts of
             Inl e \<Rightarrow> Inl e
           | Inr found \<Rightarrow>
               if py_not found then Inl FileNotFoundError
               else
                 (case py_in offset_key (the found) of
                    Inl e \<Rightarrow> Inl e
                  | Inr False \<Rightarrow> Inl FileNotFoundError
                  | Inr True \<Rightarrow> read_entry a (the found))))"

subsection \<open>\<open>Asar.extract\<close>\<close>

text \<open>
  Extraction acts on the file system through the operating system. The model takes the
  calls it makes as a record of operations over a type \<open>'fs\<close> of file-system states:
  the two queries, and the commands, each giving the state it leaves and the error it
  raised, if any. The path functions \<open>normpath\<close>, \<open>dirname\<close> and \<open>basename\<close> of
  \<open>os.path\<close> are fields of the record as well.
\<close>

record 'fs os =
  os_exists :: "pystr \<Rightarrow> 'fs \<Rightarrow> bool"
  os_isdir :: "pystr \<Rightarrow> 'fs \<Rightarrow> bool"
  os_makedirs :: "pystr \<Rightarrow> bool \<Rightarrow> 'fs \<Rightarrow> error option \<times> 'fs"
  os_write_file :: "pystr \<Rightarrow> bytes \<Rightarrow> 'fs \<Rightarrow> error option \<times> 'fs"
  os_copyfile :: "pystr \<Rightarrow> pystr \<Rightarrow> 'fs \<Rightarrow> error option \<times> 'fs"
  os_symlink :: "pystr \<Rightarrow> pystr \<Rightarrow> 'fs \<Rightarrow> error option \<times> 'fs"
  os_unlink :: "pystr \<Rightarrow> 'fs \<Rightarrow> error option \<times> 'fs"
  os_normpath :: "pystr \<Rightarrow> pystr"
  os_dirname :: "pystr \<Rightarrow> pystr"
  os_basename :: "pystr \<Rightarrow> pystr"

definition copy_unpacked_file ::
  "'fs os \<Rightarrow> asar \<Rightarrow> pystr \<Rightarrow> pystr \<Rightarrow> 'fs \<Rightarrow> error option \<times> 'fs" where
  "copy_unpacked_file os a source destination fs =
     (let unpacked_dir = path a @ u ''.unpacked'' in
      if \<not> os_isdir os unpacked_dir fs then (None, fs)
      else
        (let src = path_join unpacked_dir source in
         if \<not> os_exists os src fs then (None, fs)
         else
           (let dest = path_join destination source in
            case os_makedirs os (os_dirname os dest) True fs of
              (Some e, fs') \<Rightarrow> (Some e, fs')
            | (None, fs') \<Rightarrow> os_copyfile os src dest fs')))"

definition extract_file_to ::
  "'fs os \<Rightarrow> asar \<Rightarrow> pystr \<Rightarrow> json \<Rightarrow> pystr \<Rightarrow> 'fs \<Rightarrow> error option \<times> 'fs" where
  "extract_file_to os a source info destination fs =
     (case py_in offset_key info of
        Inl e \<Rightarrow> (Some e, fs)
      | Inr False \<Rightarrow> copy_unpacked_file os a source destination fs
      | Inr True \<Rightarrow>
          (case read_entry a info of
             Inl e \<Rightarrow> (Some e, fs)
           | Inr r \<Rightarrow>
               (let dest = path_join destination source in
                case os_makedirs os (os_dirname os dest) True fs of
                  (Some e, fs') \<Rightarrow> (Some e, fs')
                | (None, fs') \<Rightarrow> os_write_file os dest r fs')))"

text \<open>
  \<open>_extract_link\<close>. \<open>os.path.join(destination, link)\<close> needs \<open>link\<close> to be a string.
  A \<open>FileExistsError\<close> of \<open>os.symlink\<close> is the \<open>OSError\<close> with \<open>errno.EEXIST\<close>.
\<close>

definition extract_link ::
  "'fs os \<Rightarrow> pystr \<Rightarrow> json \<Rightarrow> pystr \<Rightarrow> 'fs \<Rightarrow> error option \<times> 'fs" where
  "extract_link os source link destination fs =
     (case link of
        JStr l \<Rightarrow>
          (let dest_filename = os_normpath os (path_join destination source);
               link_src_path = os_dirname os (path_join destination l);
               link_to = path_join link_src_path (os_basename os l)
           in case os_symlink os link_to dest_filename fs of
                (None, fs') \<Rightarrow> (None, fs')
              | (Some e, fs') \<Rightarrow>
                  if e = FileExistsError then
                    (case os_unlink os dest_filename fs' of
                       (Some e', fs'') \<Rightarrow> (Some e', fs'')
                     | (None, fs'') \<Rightarrow> os_symlink os link_to dest_filename fs'')
                  else (Some e, fs'))
      | JObj kvs \<Rightarrow> (Some TypeError, fs)
      | JNum i \<Rightarrow> (Some TypeError, fs))"

function extract_directory ::
  "'fs os \<Rightarrow> asar \<Rightarrow> pystr \<Rightarrow> json \<Rightarrow> pystr \<Rightarrow> 'fs \<Rightarrow> error option \<times> 'fs"
and extract_items ::
  "'fs os \<Rightarrow> asar \<Rightarrow> pystr \<Rightarrow> (pystr \<times> json) list \<Rightarrow> pystr \<Rightarrow> 'fs \<Rightarrow> error option \<times> 'fs"
where
  "extract_directory os a source files destination fs =
     (let dest = os_normpath os (path_join destination source) in
      case (if \<not> os_exists os dest fs then os_makedirs os dest False fs else (None, fs)) of
        (Some e, fs') \<Rightarrow> (Some e, fs')
      | (None, fs') \<Rightarrow>
          (case files of
             JObj kvs \<Rightarrow> extract_items os a source kvs destination fs'
           | JStr s \<Rightarrow> (Some AttributeError, fs')
           | JNum i \<Rightarrow> (Some AttributeError, fs')))"
| "extract_items os a source [] destination fs = (None, fs)"
| "extract_items os a source ((name, info) # rest) destination fs =
     (let item_path = path_join source name in
      case
        (case py_in files_key info of
           Inl e \<Rightarrow> (Some e, fs)
         | Inr True \<Rightarrow>
             (case info of
                JObj kvs \<Rightarrow>
                  (case map_of kvs files_key of
                     None \<Rightarrow> (Some KeyError, fs)
                   | Some sub \<Rightarrow> extract_directory os a item_path sub destination fs)
              | JStr s \<Rightarrow> (Some TypeError, fs)
              | JNum i \<Rightarrow> (Some TypeError, fs))
         | Inr False \<Rightarrow>
             (case py_in link_key info of
                Inl e \<Rightarrow> (Some e, fs)
              | Inr True \<Rightarrow>
                  (case py_getitem info link_key of
                     Inl e \<Rightarrow> (Some e, fs)
                   | Inr link \<Rightarrow> extract_link os item_path link destination fs)
              | Inr False \<Rightarrow> extract_file_to os a item_path info destination fs))
      of
        (Some e, fs') \<Rightarrow> (Some e, fs')
      | (None, fs') \<Rightarrow> extract_items os a source rest destination fs')"
  by pat_completeness auto
termination
proof (relation "measure (\<lambda>x. case x of
           Inl (_, _, _, j, _, _) \<Rightarrow> size j
         | Inr (_, _, _, kvs, _, _) \<Rightarrow> size_list (size_prod (\<lambda>_. 0) size) kvs)")
  have m: "map_of kvs k = Some v \<Longrightarrow> size v < Suc (size_list (size_prod (\<lambda>_. 0) size) kvs)"
    for kvs :: "(pystr \<times> json) list" and k v
    by (induction kvs) (auto split: if_splits)
  fix os :: "'fs os" and a :: asar and source name :: pystr and info :: json
    and rest :: "(pystr \<times> json) list" and destination :: pystr and fs :: "'fs"
    and x :: pystr and x1 x2
  assume "info = JObj x1" "map_of x1 files_key = Some x2"
  then show "(Inl (os, a, x, x2, destination, fs), Inr (os, a, source, (name, info) # rest, destination, fs))
      \<in> measure (\<lambda>x. case x of
           Inl (_, _, _, j, _, _) \<Rightarrow> size j
         | Inr (_, _, _, kvs, _, _) \<Rightarrow> size_list (size_prod (\<lambda>_. 0) size) kvs)"
    using m [of x1 files_key x2] by simp
qed auto

text \<open>\<open>Asar.extract\<close> (\<open>extract\<close> is a command name of Isabelle, hence \<open>asar_extract\<close>).\<close>

definition asar_extract :: "'fs os \<Rightarrow> asar \<Rightarrow> pystr \<Rightarrow> 'fs \<Rightarrow> error option \<times> 'fs" where
  "asar_extract os a p fs =
     (if os_exists os p fs then (Some FileExistsError, fs)
      else
        (case py_getitem (header a) files_key of
           Inl e \<Rightarrow> (Some e, fs)
         | Inr files \<Rightarrow> extract_directory os a (u ''.'') files p fs))"

section \<open>The notions of the specification\<close>

subsection \<open>The tree of the data model\<close>

text \<open>
  The specification speaks of a tree of \<open>Directory\<close>, \<open>File\<close> and \<open>Symlink\<close> nodes.
  \<open>node_of\<close> reads this tree off a header, classifying a node as \<open>_extract_directory\<close>
  does: an object with the key \<open>files\<close> is a directory, else one with the key \<open>link\<close> is
  a symbolic link, else it is a file, with its \<open>size\<close> and its \<open>offset\<close> if it has them.
  What the format does not allow is \<open>Malformed\<close>: a node that is not an object, a \<open>files\<close>
  entry that is not an object, and a directory or a link that carries an \<open>offset\<close>.
\<close>

datatype tree_node =
    Directory "(pystr \<times> tree_node) list"
  | File "json option" "json option"
  | Symlink json
  | Malformed

function node_of :: "json \<Rightarrow> tree_node"
and nodes_of :: "(pystr \<times> json) list \<Rightarrow> (pystr \<times> tree_node) list"
where
  "node_of (JObj kvs) =
     (case map_of kvs files_key of
        Some sub \<Rightarrow>
          (if map_of kvs offset_key \<noteq> None then Malformed
           else (case sub of JObj children \<Rightarrow> Directory (nodes_of children)
                           | JStr s \<Rightarrow> Malformed
                           | JNum i \<Rightarrow> Malformed))
      | None \<Rightarrow>
          (case map_of kvs link_key of
             Some l \<Rightarrow> (if map_of kvs offset_key \<noteq> None then Malformed else Symlink l)
           | None \<Rightarrow> File (map_of kvs size_key) (map_of kvs offset_key)))"
| "node_of (JStr s) = Malformed"
| "node_of (JNum i) = Malformed"
| "nodes_of [] = []"
| "nodes_of ((name, info) # rest) = (name, node_of info) # nodes_of rest"
  by pat_completeness auto
termination
proof (relation "measure (\<lambda>x. case x of Inl j \<Rightarrow> 2 * size j
                                      | Inr kvs \<Rightarrow> 2 * size_list (size_prod (\<lambda>_. 0) size) kvs + 1)")
  have m: "map_of kvs k = Some v \<Longrightarrow> size v < Suc (size_list (size_prod (\<lambda>_. 0) size) kvs)"
    for kvs :: "(pystr \<times> json) list" and k v
    by (induction kvs) (auto split: if_splits)
  fix kvs :: "(pystr \<times> json) list" and x2 x1
  assume "map_of kvs files_key = Some x2" "x2 = JObj x1"
  then show "(Inr x1, Inl (JObj kvs))
      \<in> measure (\<lambda>x. case x of Inl j \<Rightarrow> 2 * size j
                            | Inr kvs \<Rightarrow> 2 * size_list (size_prod (\<lambda>_. 0) size) kvs + 1)"
    using m [of kvs files_key "JObj x1"] by simp
qed auto

fun well_formed :: "tree_node \<Rightarrow> bool" where
  "well_formed (Directory children) = list_all (\<lambda>(name, n). well_formed n) children"
| "well_formed (File sz off) = True"
| "well_formed (Symlink l) = True"
| "well_formed Malformed = False"

subsection \<open>Serialization in insertion order, and sorted trees\<close>

text \<open>
  The serialization the specification asks for: as \<open>dumps\<close>, but with the entries of every
  object in the order the object holds them.
\<close>

fun dumps_insertion_order :: "json \<Rightarrow> bytes" where
  "dumps_insertion_order (JObj kvs) =
     CHR ''{'' # join_comma (map (\<lambda>(k, v). encode_basestring_ascii k @ CHR '':'' # dumps_insertion_order v)
                                kvs) @ [CHR ''}'']"
| "dumps_insertion_order (JStr s) = encode_basestring_ascii s"
| "dumps_insertion_order (JNum i) = map char_of (str_int i)"

text \<open>The same tree with the entries of every object in ascending order of their keys.\<close>

fun sort_keys :: "json \<Rightarrow> json" where
  "sort_keys (JObj kvs) = JObj (sort_key fst (map (\<lambda>(k, v). (k, sort_keys v)) kvs))"
| "sort_keys (JStr s) = JStr s"
| "sort_keys (JNum i) = JNum i"

fun keys_ascending :: "json \<Rightarrow> bool" where
  "keys_ascending (JObj kvs) = (sorted (map fst kvs) \<and> list_all (\<lambda>(k, v). keys_ascending v) kvs)"
| "keys_ascending (JStr s) = True"
| "keys_ascending (JNum i) = True"

subsection \<open>Counting the nodes of a tree\<close>

text \<open>
  The leaves of a tree are its \<open>File\<close> and \<open>Symlink\<close> nodes; \<open>directory_count\<close> counts
  the directories, the root included; \<open>entry_count\<close> counts all the nodes below a
  directory.
\<close>

fun leaf_count :: "tree_node \<Rightarrow> nat" where
  "leaf_count (Directory children) = sum_list (map (\<lambda>(name, n). leaf_count n) children)"
| "leaf_count (File sz off) = 1"
| "leaf_count (Symlink l) = 1"
| "leaf_count Malformed = 0"

fun directory_count :: "tree_node \<Rightarrow> nat" where
  "directory_count (Directory children) = 1 + sum_list (map (\<lambda>(name, n). directory_count n) children)"
| "directory_count (File sz off) = 0"
| "directory_count (Symlink l) = 0"
| "directory_count Malformed = 0"

definition entry_count :: "(pystr \<times> tree_node) list \<Rightarrow> nat" where
  "entry_count children = sum_list (map (\<lambda>(name, n). leaf_count n + directory_count n) children)"

subsection \<open>Looking a path up in a tree\<close>

text \<open>
  \<open>lookup\<close> as the specification describes it: the tree is walked segment by segment; a
  segment that no child is named by, and a descent into a node that is not a
  \<open>Directory\<close>, give \<open>None\<close>. A \<open>File\<close> node with an offset has its bytes in the archive.
\<close>

fun lookup :: "tree_node \<Rightarrow> pystr list \<Rightarrow> tree_node option" where
  "lookup n [] = Some n"
| "lookup (Directory children) (name # rest) =
     (case map_of children name of None \<Rightarrow> None | Some c \<Rightarrow> lookup c rest)"
| "lookup (File sz off) (name # rest) = None"
| "lookup (Symlink l) (name # rest) = None"
| "lookup Malformed (name # rest) = None"

fun is_embedded_file :: "tree_node \<Rightarrow> bool" where
  "is_embedded_file (File sz (Some off)) = True"
| "is_embedded_file n = False"

subsection \<open>Scanned directories\<close>

fun entry_name :: "entry \<Rightarrow> pystr" where
  "entry_name (Entry name isdir islink sr sub) = name"


subsection \<open>The offsets of the files\<close>

text \<open>
  The \<open>File\<close> nodes of a tree in the order of the traversal that built it: the entries of
  a directory in the order the directory holds them, a subdirectory's files where the
  subdirectory stands. Each is given by its \<open>size\<close> and its \<open>offset\<close>.
\<close>

fun files_in_order :: "tree_node \<Rightarrow> (json option \<times> json option) list" where
  "files_in_order (Directory children) = concat (map (\<lambda>(name, n). files_in_order n) children)"
| "files_in_order (File sz off) = [(sz, off)]"
| "files_in_order (Symlink l) = []"
| "files_in_order Malformed = []"

text \<open>The number a field stands for, read as the program reads it, by \<open>int\<close>.\<close>

definition int_value :: "json option \<Rightarrow> int option" where
  "int_value v =
     (case v of
        None \<Rightarrow> None
      | Some j \<Rightarrow> (case py_int j of Inl e \<Rightarrow> None | Inr i \<Rightarrow> Some i))"

text \<open>
  \<open>contiguous_from start\<close>: the first offset is \<open>start\<close>, and every offset is the offset
  before plus the size before.
\<close>

fun contiguous_from :: "int \<Rightarrow> (json option \<times> json option) list \<Rightarrow> bool" where
  "contiguous_from start [] = True"
| "contiguous_from start ((sz, off) # rest) =
     (case (int_value off, int_value sz) of
        (Some ofs, Some n) \<Rightarrow> ofs = start \<and> contiguous_from (ofs + n) rest
      | _ \<Rightarrow> False)"

definition offsets_of :: "(json option \<times> json option) list \<Rightarrow> int option list" where
  "offsets_of fs = map (\<lambda>(sz, off). int_value off) fs"

definition strictly_increasing :: "int option list \<Rightarrow> bool" where
  "strictly_increasing xs =
     sorted_wrt (\<lambda>a b. case (a, b) of (Some x, Some y) \<Rightarrow> x < y | _ \<Rightarrow> False) xs"

definition non_decreasing :: "int option list \<Rightarrow> bool" where
  "non_decreasing xs =
     sorted_wrt (\<lambda>a b. case (a, b) of (Some x, Some y) \<Rightarrow> x \<le> y | _ \<Rightarrow> False) xs"

text \<open>
  \<open>contiguous_from\<close> together with sizes that are not negative, and the offset reached
  after the last file.
\<close>

fun chain_end :: "int \<Rightarrow> (json option \<times> json option) list \<Rightarrow> int option" where
  "chain_end start [] = Some start"
| "chain_end start ((sz, off) # rest) =
     (case (int_value off, int_value sz) of
        (Some ofs, Some n) \<Rightarrow> if ofs = start \<and> 0 \<le> n then chain_end (ofs + n) rest else None
      | _ \<Rightarrow> None)"

text \<open>
  A directory lists each name once: \<open>os.scandir\<close> yields the entries of a directory, and
  no two entries of a directory have the same name.
\<close>

fun names_distinct :: "listing \<Rightarrow> bool"
and names_distinct_entries :: "entry list \<Rightarrow> bool" where
  "names_distinct (ScanOk es) = (distinct (map entry_name es) \<and> names_distinct_entries es)"
| "names_distinct (ScanFail e) = True"
| "names_distinct_entries [] = True"
| "names_distinct_entries (Entry name isdir islink sr sub # es) =
     (names_distinct sub \<and> names_distinct_entries es)"

section \<open>Sample environments\<close>

text \<open>
  Two small operating systems, for the concrete runs below. \<open>sample_realpath\<close> resolves a
  path as a process with the working directory \<open>cwd\<close> does: a relative path is taken from
  \<open>cwd\<close>, and a path that is a symbolic link is replaced by its target. \<open>sample_os\<close> is a
  file system that is the list of the paths that exist.
\<close>

definition sample_realpath :: "pystr \<Rightarrow> (pystr \<times> pystr) list \<Rightarrow> pystr \<Rightarrow> pystr" where
  "sample_realpath cwd links p =
     (let absolute = path_join cwd p
      in case map_of links absolute of Some target \<Rightarrow> target | None \<Rightarrow> absolute)"

definition sample_os :: "(pystr list) os" where
  "sample_os =
     \<lparr>os_exists = (\<lambda>p fs. p \<in> set fs),
      os_isdir = (\<lambda>p fs. p \<in> set fs),
      os_makedirs = (\<lambda>p exist_ok fs.
         if p \<in> set fs \<and> \<not> exist_ok then (Some FileExistsError, fs) else (None, p # fs)),
      os_write_file = (\<lambda>p content fs. (None, p # fs)),
      os_copyfile = (\<lambda>src dst fs. (None, dst # fs)),
      os_symlink = (\<lambda>target p fs.
         if p \<in> set fs then (Some FileExistsError, fs) else (None, p # fs)),
      os_unlink = (\<lambda>p fs. (None, removeAll p fs)),
      os_normpath = (\<lambda>p. p),
      os_dirname = (\<lambda>p. p),
      os_basename = (\<lambda>p. p)\<rparr>"

section \<open>Properties\<close>

subsection \<open>Alignment and the 16-byte record\<close>

lemma and_not3: "(x::int) AND NOT 3 = x - x mod 4"
proof -
  have a: "NOT x AND take_bit 2 x = 0"
    by (auto simp: bit_eq_iff bit_simps)
  have "x - take_bit 2 x = x AND NOT (take_bit 2 x)"
    by (rule disjunctive_diff_eq_and_not [OF a])
  also have "\<dots> = x AND NOT (mask 2)"
    by (auto simp: bit_eq_iff bit_simps)
  finally show ?thesis by (simp add: mask_eq_exp_minus_1 take_bit_eq_mod)
qed

lemma round_up_4: "round_up i 4 = i + 3 - (i + 3) mod 4"
  using and_not3 [of "i + 3"] by (simp add: round_up_def add.commute)

lemma round_up_4_ge: "i \<le> round_up i 4"
  unfolding round_up_4 by presburger

lemma le32_inv: "fits_u32 n \<Longrightarrow> unle32 (le32 n) = n"
proof -
  assume "fits_u32 n"
  then have b: "0 \<le> n" "n < 4294967296" by (simp_all add: fits_u32_def)
  have d3: "n div 16777216 mod 256 = n div 16777216" using b by simp
  have s1: "n = n mod 256 + 256 * (n div 256)" by simp
  have e2: "n div 65536 = n div 256 div 256"
    using zdiv_zmult2_eq [of 256 n 256] by simp
  have e3: "n div 16777216 = n div 65536 div 256"
    using zdiv_zmult2_eq [of 256 n 65536] by simp
  have s2: "n div 256 = n div 256 mod 256 + 256 * (n div 65536)"
    unfolding e2 by simp
  have s3: "n div 65536 = n div 65536 mod 256 + 256 * (n div 16777216)"
    unfolding e3 by simp
  have "unle32 (le32 n) = n mod 256 + 256 * (n div 256 mod 256)
          + 65536 * (n div 65536 mod 256) + 16777216 * (n div 16777216)"
    by (simp add: le32_def d3)
  also have "\<dots> = n"
    using s1 s2 s3 by linarith
  finally show ?thesis .
qed

lemma length_le32: "length (le32 n) = 4"
  by (simp add: le32_def)

lemma struct_unpack4_pack:
  assumes "struct_pack4 a b c d = Inr r"
  shows "struct_unpack4 r = Inr (a, b, c, d)"
proof -
  from assms have f: "fits_u32 a" "fits_u32 b" "fits_u32 c" "fits_u32 d"
    and r: "r = le32 a @ le32 b @ le32 c @ le32 d"
    by (auto simp: struct_pack4_def split: if_splits)
  show ?thesis
    unfolding r struct_unpack4_def using f by (simp add: length_le32 le32_inv)
qed

lemma length_struct_pack4: "struct_pack4 a b c d = Inr r \<Longrightarrow> length r = 16"
  by (auto simp: struct_pack4_def length_le32 split: if_splits)

lemma pad_header_eq:
  "pad_header j = j @ replicate (nat (round_up (int (length j)) 4 - int (length j))) (CHR 0x00)"
  by (simp add: pad_header_def Let_def)

lemma length_pad_header: "int (length (pad_header j)) = round_up (int (length j)) 4"
  using round_up_4_ge [of "int (length j)"] by (simp add: pad_header_eq)

text \<open>
  C3. For every tree that \<open>compress\<close> serializes, the 16 bytes at the start of the
  archive unpack to \<open>dataSize = 4\<close>, \<open>headerSize = align4(headerStringSize) + 8\<close>,
  \<open>headerObjectSize = align4(headerStringSize) + 4\<close> and \<open>headerStringSize\<close>, the
  exact length of the tree description, where \<open>align4(n) = (n + 3) & ~3\<close>; and the bytes
  after the record are the tree description followed by NUL bytes up to
  \<open>align4(headerStringSize)\<close>.
\<close>

theorem header_field_formulas:
  assumes "compress realpath read_file p exclude_patterns root = Inr a"
  shows "let tree_string = dumps (header a);
             header_string_size = int (length tree_string);
             aligned = (header_string_size + 3) AND NOT 3
         in struct_unpack4 (take 16 (fp a))
              = Inr (4, aligned + 8, aligned + 4, header_string_size)
          \<and> take (nat aligned) (drop 16 (fp a))
              = tree_string @ replicate (nat (aligned - header_string_size)) (CHR 0x00)"
proof -
  from assms obtain hdr st r where
    b: "path_to_dict realpath exclude_patterns \<lparr>offset = 0, paths = []\<rparr> p root = Inr (hdr, st)"
    and r: "header_record (dumps hdr) = Inr r"
    and a: "a = \<lparr>path = p,
               fp = r @ pad_header (dumps hdr) @ paths_to_bytes read_file (paths st),
               header = hdr,
               base_offset = round_up (16 + int (length (dumps hdr))) 4\<rparr>"
    by (auto simp: compress_def Let_def split: sum.splits)
  define n where "n = int (length (dumps hdr))"
  define al where "al = round_up n 4"
  define payload where "payload = paths_to_bytes read_file (paths st)"
  have ha: "header a = hdr" "fp a = r @ pad_header (dumps hdr) @ payload"
    by (simp_all add: a payload_def)
  have ru: "(int (length (dumps hdr)) + 3) AND NOT 3 = al"
    by (simp add: al_def n_def round_up_def add.commute)
  have l: "length r = 16"
    using r by (auto simp: header_record_def Let_def dest: length_struct_pack4)
  have u: "struct_unpack4 r = Inr (4, al + 8, al + 4, int (length (dumps hdr)))"
    using r by (auto simp: al_def n_def header_record_def Let_def dest: struct_unpack4_pack)
  have lp: "length (pad_header (dumps hdr)) = nat al"
    using length_pad_header [of "dumps hdr"] by (simp add: al_def n_def)
  have t: "take (nat al) (pad_header (dumps hdr) @ payload)
             = dumps hdr @ replicate (nat (al - int (length (dumps hdr)))) (CHR 0x00)"
    using lp by (simp add: pad_header_eq [symmetric] al_def n_def)
  have "take 16 (fp a) = r" "drop 16 (fp a) = pad_header (dumps hdr) @ payload"
    using l by (simp_all add: ha)
  then show ?thesis
    unfolding Let_def ha ru using u t by simp
qed

text \<open>
  The directory \<open>d\<close> with the one file \<open>a.txt\<close> of two bytes: the tree description has
  43 bytes, so the record holds 4, 52, 48 and 43, and one NUL byte pads the description.
\<close>

theorem header_field_formulas_witness:
  "\<exists>a. compress id (\<lambda>_. Some ''hi'') (u ''d'') []
          (ScanOk [Entry (u ''a.txt'') False False (StatOk 2) (ScanOk [])]) = Inr a
     \<and> length (dumps (header a)) = 43
     \<and> struct_unpack4 (take 16 (fp a)) = Inr (4, 52, 48, 43)
     \<and> take 44 (drop 16 (fp a)) = dumps (header a) @ [CHR 0x00]"
proof -
  define a where "a = \<lparr>path = u ''d'',
        fp = le32 4 @ le32 52 @ le32 48 @ le32 43
             @ dumps (dir_node [(u ''a.txt'', file_node 2 0)]) @ [CHR 0x00, CHR ''h'', CHR ''i''],
        header = dir_node [(u ''a.txt'', file_node 2 0)],
        base_offset = 60\<rparr>"
  have c: "compress id (\<lambda>_. Some ''hi'') (u ''d'') []
          (ScanOk [Entry (u ''a.txt'') False False (StatOk 2) (ScanOk [])]) = Inr a"
    unfolding a_def by code_simp
  have n: "length (dumps (header a)) = 43"
    unfolding a_def by code_simp
  have "(int (43::nat) + 3) AND NOT 3 = 44"
    by (simp add: and_not3)
  with header_field_formulas [OF c] n have
    "struct_unpack4 (take 16 (fp a)) = Inr (4, 52, 48, 43)
     \<and> take 44 (drop 16 (fp a)) = dumps (header a) @ [CHR 0x00]"
    by (simp add: Let_def numeral_eq_Suc)
  with c n show ?thesis by blast
qed

subsection \<open>The order of the serialized entries\<close>

lemma insort_key_map_fst:
  assumes "\<And>x. fst (h x) = fst x"
  shows "insort_key fst (h x) (map h ys) = map h (insort_key fst x ys)"
  using assms by (induction ys) simp_all

lemma sort_key_map_fst:
  assumes "\<And>x. fst (h x) = fst x"
  shows "sort_key fst (map h xs) = map h (sort_key fst xs)"
  using assms by (induction xs) (simp_all add: insort_key_map_fst)

lemma dumps_sort_keys: "dumps t = dumps_insertion_order (sort_keys t)"
proof (induction t)
  case (JObj kvs)
  let ?f = "\<lambda>(k, v). encode_basestring_ascii k @ CHR '':'' # dumps v"
  let ?g = "\<lambda>(k, v). encode_basestring_ascii k @ CHR '':'' # dumps_insertion_order v"
  let ?h = "\<lambda>(k, v). (k, sort_keys v)"
  have h: "sort_key fst (map ?h kvs) = map ?h (sort_key fst kvs)"
    by (rule sort_key_map_fst) auto
  have pt: "?f x = ?g (?h x)" if "x \<in> set kvs" for x
    using JObj that by (cases x) (auto simp: snds.simps)
  have "map ?f (sort_key fst kvs) = map (\<lambda>x. ?g (?h x)) (sort_key fst kvs)"
    by (rule map_cong) (simp_all add: pt)
  also have "\<dots> = map ?g (sort_key fst (map ?h kvs))"
    unfolding h by (simp add: comp_def)
  finally show ?case by simp
qed simp_all

lemma keys_ascending_sort_keys: "keys_ascending (sort_keys t)"
proof (induction t)
  case (JObj kvs)
  have "map fst (map (\<lambda>(k, v). (k, sort_keys v)) kvs) = map fst kvs"
    by (induction kvs) auto
  then have s: "sorted (map fst (sort_key fst (map (\<lambda>(k, v). (k, sort_keys v)) kvs)))"
    by simp
  have "list_all (\<lambda>(k, v). keys_ascending v) (map (\<lambda>(k, v). (k, sort_keys v)) kvs)"
    using JObj by (auto simp: list_all_iff snds.simps)
  then have "list_all (\<lambda>(k, v). keys_ascending v)
               (sort_key fst (map (\<lambda>(k, v). (k, sort_keys v)) kvs))"
    by (simp add: list_all_iff)
  with s show ?case by simp
qed simp_all

text \<open>
  C4, as stated: the serialized tree description renders the entries of each directory in
  the builder's insertion order. It fails: a directory scanned as \<open>b\<close>, then \<open>a\<close> is
  written with \<open>a\<close> first, since \<open>compress\<close> calls \<open>json.dumps\<close> with \<open>sort_keys=True\<close>.
\<close>

theorem serialization_order_counterexample:
  "dumps (dir_node [(u ''b'', link_node (u ''x'')), (u ''a'', link_node (u ''y''))])
   \<noteq> dumps_insertion_order
        (dir_node [(u ''b'', link_node (u ''x'')), (u ''a'', link_node (u ''y''))])"
  by code_simp

text \<open>
  C4, amended: for every tree, the serialized tree description renders the entries of
  each directory (of each object) in ascending order of their names, whatever the
  insertion order: it is the insertion-order rendering of the tree with sorted keys.
\<close>

theorem serialization_sorted:
  "dumps t = dumps_insertion_order (sort_keys t) \<and> keys_ascending (sort_keys t)"
  using dumps_sort_keys [of t] keys_ascending_sort_keys [of t] by simp

theorem serialization_sorted_witness:
  "dumps (dir_node [(u ''b'', link_node (u ''x'')), (u ''a'', link_node (u ''y''))])
     = dumps_insertion_order
         (dir_node [(u ''a'', link_node (u ''y'')), (u ''b'', link_node (u ''x''))])
   \<and> keys_ascending (dir_node [(u ''a'', link_node (u ''y'')), (u ''b'', link_node (u ''x''))])"
proof -
  have s: "sort_keys (dir_node [(u ''b'', link_node (u ''x'')), (u ''a'', link_node (u ''y''))])
         = dir_node [(u ''a'', link_node (u ''y'')), (u ''b'', link_node (u ''x''))]"
    by code_simp
  show ?thesis
    using serialization_sorted
      [of "dir_node [(u ''b'', link_node (u ''x'')), (u ''a'', link_node (u ''y''))]"]
    unfolding s by simp
qed

subsection \<open>Classification of the scanned entries\<close>









text \<open>
  C8. The claim asks for the real path of a link, resolved from the entry's own location.
  The code passes the bare name, \<open>os.path.realpath(f.name)\<close>, where the other branches
  use \<open>f.path\<close>. In \<open>/src/sub\<close> the link \<open>l\<close> points to \<open>/src/sub/t.txt\<close>; the process runs
  in \<open>/work\<close>. The tree records \<open>/work/l\<close>, while the link's own path resolves to
  \<open>/src/sub/t.txt\<close>.
\<close>

theorem symlink_resolved_from_working_directory:
  "path_to_dict (sample_realpath (u ''/work'') [(u ''/src/sub/l'', u ''/src/sub/t.txt'')]) []
     \<lparr>offset = 0, paths = []\<rparr> (u ''/src'')
     (ScanOk [Entry (u ''sub'') True False (StatOk 0)
                (ScanOk [Entry (u ''l'') False True (StatOk 0) (ScanOk [])])])
   = Inr (dir_node [(u ''sub'', dir_node [(u ''l'', link_node (u ''/work/l''))])],
          \<lparr>offset = 0, paths = []\<rparr>)
   \<and> sample_realpath (u ''/work'') [(u ''/src/sub/l'', u ''/src/sub/t.txt'')]
        (path_join (path_join (u ''/src'') (u ''sub'')) (u ''l'')) = u ''/src/sub/t.txt''"
  by code_simp

subsection \<open>Files that cannot be read while packing\<close>

text \<open>
  C7. The claim asks that a file that cannot be read aborts the pack. The code prints the
  failure and goes on, while the offsets were assigned as if every file were written.
  The directory \<open>d\<close> holds \<open>a.txt\<close>, \<open>b.txt\<close> and \<open>c.txt\<close> of two bytes each; \<open>a.txt\<close>
  cannot be read, \<open>b.txt\<close> holds \<open>yo\<close> and \<open>c.txt\<close> holds \<open>!!\<close>. \<open>compress\<close> succeeds, and
  in its archive \<open>b.txt\<close> reads as \<open>!!\<close> and \<open>c.txt\<close> as nothing.
\<close>

theorem unreadable_file_shifts_payload:
  "(case compress id
           (\<lambda>p. if p = u ''d/b.txt'' then Some ''yo''
                else if p = u ''d/c.txt'' then Some ''!!'' else None)
           (u ''d'') []
           (ScanOk [Entry (u ''a.txt'') False False (StatOk 2) (ScanOk []),
                    Entry (u ''b.txt'') False False (StatOk 2) (ScanOk []),
                    Entry (u ''c.txt'') False False (StatOk 2) (ScanOk [])]) of
      Inl e \<Rightarrow> False
    | Inr a \<Rightarrow> extract_file a (u ''b.txt'') = Inr ''!!'' \<and> extract_file a (u ''c.txt'') = Inr [])"
  by code_simp

subsection \<open>Extraction to a destination that exists\<close>

text \<open>
  C6. When the destination path exists, \<open>extract\<close> fails with \<open>FileExistsError\<close> and the
  file system is the one it started from: no operation of the operating system has run.
\<close>

theorem extract_existing_destination:
  "os_exists os p fs \<Longrightarrow> asar_extract os a p fs = (Some FileExistsError, fs)"
  by (simp add: asar_extract_def)

theorem extract_existing_destination_witness:
  "os_exists sample_os (u ''out'') [u ''out'', u ''out/keep.txt'']
   \<and> asar_extract sample_os
        \<lparr>path = u ''app.asar'', fp = [], header = dir_node [(u ''a.txt'', file_node 2 0)],
         base_offset = 60\<rparr>
        (u ''out'') [u ''out'', u ''out/keep.txt'']
      = (Some FileExistsError, [u ''out'', u ''out/keep.txt''])"
proof -
  have h: "os_exists sample_os (u ''out'') [u ''out'', u ''out/keep.txt'']"
    by (simp add: sample_os_def)
  from extract_existing_destination [OF h] h show ?thesis by simp
qed

subsection \<open>The number of listed files\<close>

lemma entry_count_Nil: "entry_count [] = 0" by (simp add: entry_count_def)
lemma entry_count_Cons: "entry_count ((name, n) # r) = leaf_count n + directory_count n + entry_count r"
  by (simp add: entry_count_def)

lemma entry_count_Directory:
  "leaf_count (Directory ch) + directory_count (Directory ch) = 1 + entry_count ch"
  by (induction ch) (auto simp: entry_count_def)

lemma walk_count:
  "(files_dict = JObj kvs \<longrightarrow> list_all (\<lambda>(name, n). well_formed n) (nodes_of kvs)
      \<longrightarrow> (\<exists>fs. walk_files files_dict cur = Inr fs \<and> length fs = entry_count (nodes_of kvs)))"
  "(list_all (\<lambda>(name, n). well_formed n) (nodes_of items)
      \<longrightarrow> (\<exists>fs. walk_items items cur' = Inr fs \<and> length fs = entry_count (nodes_of items)))"
proof (induction files_dict cur and items cur' arbitrary: kvs rule: walk_files_walk_items.induct)
  case (1 files_dict current_path)
  then show ?case by auto
next
  case (2 current_path)
  then show ?case by (simp add: entry_count_Nil)
next
  case (3 name info rest current_path)
  show ?case
  proof (intro impI)
    assume wf: "list_all (\<lambda>(name, n). well_formed n) (nodes_of ((name, info) # rest))"
    then have wi: "well_formed (node_of info)"
      and wr: "list_all (\<lambda>(name, n). well_formed n) (nodes_of rest)" by simp_all
    from wi obtain kvs where info: "info = JObj kvs" by (cases info) auto
    show "\<exists>fs. walk_items ((name, info) # rest) current_path = Inr fs
            \<and> length fs = entry_count (nodes_of ((name, info) # rest))"
    proof (cases "map_of kvs files_key")
      case None
      then have pin: "py_in files_key info = Inr False" by (simp add: info)
      from "3.IH"(3) [OF refl pin refl] wr obtain after where
        a: "walk_items rest current_path = Inr after" "length after = entry_count (nodes_of rest)"
        by auto
      have c: "leaf_count (node_of info) + directory_count (node_of info) = 1"
        using None wi by (auto simp: info split: option.splits if_splits)
      show ?thesis using pin a c by (simp add: Let_def entry_count_Cons)
    next
      case (Some sub)
      then have pin: "py_in files_key info = Inr True" by (simp add: info)
      from wi Some obtain ch where sub: "sub = JObj ch"
        and n: "node_of info = Directory (nodes_of ch)"
        by (cases sub) (auto simp: info split: if_splits)
      from wi n have wch: "list_all (\<lambda>(name, n). well_formed n) (nodes_of ch)" by simp
      from "3.IH"(1) [OF refl pin refl info Some, of ch] sub wch obtain below where
        b: "walk_files sub (replace_backslash (path_join current_path name)) = Inr below"
           "length below = entry_count (nodes_of ch)"
        by auto
      from "3.IH"(2) [OF refl pin refl info Some b(1)] wr obtain after where
        a: "walk_items rest current_path = Inr after" "length after = entry_count (nodes_of rest)"
        by auto
      have w: "walk_items ((name, info) # rest) current_path
                 = Inr ((replace_backslash (path_join current_path name) @ [47]) # below @ after)"
        using pin Some a(1) b(1) by (simp add: Let_def info)
      have cnt: "leaf_count (node_of info) + directory_count (node_of info)
                   = 1 + entry_count (nodes_of ch)"
        unfolding n by (rule entry_count_Directory)
      show ?thesis
        unfolding w using cnt a(2) b(2) by (simp add: entry_count_Cons)
    qed
  qed
qed


lemma startswith_empty: "startswith f [] = True"
  by (simp add: startswith_def)

text \<open>
  C9, amended: for an archive whose header is a well-formed tree, \<open>get_file_info\<close>
  returns, and its \<open>file_count\<close> is the number of all entries of the tree, the
  directories below the root as well as the \<open>File\<close> and \<open>Symlink\<close> leaves:
  \<open>list_files\<close> lists every directory too, with a trailing separator.
\<close>

theorem file_count_counts_directories:
  assumes "node_of (header a) = Directory children" and "well_formed (Directory children)"
  shows "\<exists>info. get_file_info a = Inr info
           \<and> file_count info
               = leaf_count (Directory children) + directory_count (Directory children) - 1"
proof -
  from assms(1) obtain kvs ch where h: "header a = JObj kvs"
    and f: "map_of kvs files_key = Some (JObj ch)" and c: "children = nodes_of ch"
    by (cases "header a") (auto split: option.splits if_splits json.splits)
  from assms(2) c have "list_all (\<lambda>(name, n). well_formed n) (nodes_of ch)" by simp
  with walk_count(1) [of "JObj ch" ch "[]"] obtain fs where
    w: "walk_files (JObj ch) [] = Inr fs" and l: "length fs = entry_count (nodes_of ch)"
    by auto
  have "list_files a [] = Inr fs"
    using w by (simp add: list_files_def h f startswith_empty del: walk_files.simps)
  then have "get_file_info a = Inr \<lparr>info_path = path a, info_base_offset = base_offset a,
               file_count = length fs, info_header = header a\<rparr>"
    by (simp add: get_file_info_def)
  moreover have "length fs = leaf_count (Directory children) + directory_count (Directory children) - 1"
    using l entry_count_Directory [of children] c by simp
  ultimately show ?thesis by simp
qed

text \<open>
  C9, as stated: \<open>file_count\<close> is the number of \<open>File\<close> and \<open>Symlink\<close> leaves. It fails
  on the tree with the directory \<open>sub\<close> holding the file \<open>b.txt\<close>: one leaf, and a
  \<open>file_count\<close> of 2.
\<close>

theorem file_count_counterexample:
  "(case get_file_info \<lparr>path = u ''app.asar'', fp = [],
         header = dir_node [(u ''sub'', dir_node [(u ''b.txt'', file_node 2 0)])],
         base_offset = 0\<rparr> of
      Inl e \<Rightarrow> False
    | Inr info \<Rightarrow> file_count info = 2)
   \<and> leaf_count (node_of (dir_node [(u ''sub'', dir_node [(u ''b.txt'', file_node 2 0)])])) = 1"
  by code_simp

theorem file_count_counts_directories_witness:
  "node_of (header \<lparr>path = u ''app.asar'', fp = [],
         header = dir_node [(u ''sub'', dir_node [(u ''b.txt'', file_node 2 0)])],
         base_offset = 0\<rparr>)
     = Directory [(u ''sub'', Directory [(u ''b.txt'', File (Some (JNum 2)) (Some (JStr (u ''0''))))])]
   \<and> well_formed (Directory [(u ''sub'', Directory [(u ''b.txt'', File (Some (JNum 2)) (Some (JStr (u ''0''))))])])
   \<and> (\<exists>info. get_file_info \<lparr>path = u ''app.asar'', fp = [],
         header = dir_node [(u ''sub'', dir_node [(u ''b.txt'', file_node 2 0)])],
         base_offset = 0\<rparr> = Inr info \<and> file_count info = 2)"
proof -
  let ?a = "\<lparr>path = u ''app.asar'', fp = [],
         header = dir_node [(u ''sub'', dir_node [(u ''b.txt'', file_node 2 0)])],
         base_offset = 0\<rparr>"
  let ?t = "Directory [(u ''sub'', Directory [(u ''b.txt'', File (Some (JNum 2)) (Some (JStr (u ''0''))))])]"
  have n: "node_of (header ?a) = ?t" by code_simp
  have w: "well_formed ?t" by simp
  have c: "leaf_count ?t + directory_count ?t - 1 = 2" by simp
  from file_count_counts_directories [OF n w]
  have "\<exists>info. get_file_info ?a = Inr info \<and> file_count info = 2"
    unfolding c .
  with n w show ?thesis by blast
qed

subsection \<open>Paths that \<open>extract_file\<close> does not find\<close>

lemma map_of_nodes_of: "map_of (nodes_of kvs) name = map_option node_of (map_of kvs name)"
  by (induction kvs) auto

lemma well_formed_child:
  "list_all (\<lambda>(name, n). well_formed n) ch \<Longrightarrow> map_of ch name = Some n \<Longrightarrow> well_formed n"
  by (induction ch) (auto split: if_splits)

lemma well_formed_obj: "well_formed (node_of j) \<Longrightarrow> \<exists>kvs. j = JObj kvs"
  by (cases j) auto

lemma find_file_lookup:
  assumes "list_all (\<lambda>(name, n). well_formed n) (nodes_of kvs)" and "parts \<noteq> []"
  shows "(lookup (Directory (nodes_of kvs)) parts = None \<longrightarrow> find_file (JObj kvs) parts = Inr None)
       \<and> (\<forall>n. lookup (Directory (nodes_of kvs)) parts = Some n \<longrightarrow>
            (\<exists>j. find_file (JObj kvs) parts = Inr (Some j) \<and> node_of j = n \<and> well_formed n))"
  using assms
proof (induction parts arbitrary: kvs)
  case Nil
  then show ?case by simp
next
  case (Cons name rest)
  show ?case
  proof (cases "map_of kvs name")
    case None
    then show ?thesis by (simp add: map_of_nodes_of)
  next
    case (Some node)
    then have mn: "map_of (nodes_of kvs) name = Some (node_of node)"
      by (simp add: map_of_nodes_of)
    have wn: "well_formed (node_of node)"
      using well_formed_child [OF Cons.prems(1) mn] .
    then obtain kvs' where node: "node = JObj kvs'" using well_formed_obj by blast
    show ?thesis
    proof (cases "rest = []")
      case True
      then show ?thesis using Some mn wn by simp
    next
      case False
      then obtain r rs where rest: "rest = r # rs" by (cases rest) auto
      show ?thesis
      proof (cases "map_of kvs' files_key")
        case None
        then have "lookup (node_of node) rest = None"
          using wn by (auto simp: node rest split: option.splits if_splits)
        then show ?thesis using Some mn None False by (simp add: node)
      next
        case (Some sub)
        from wn Some obtain ch where sub: "sub = JObj ch"
          and n: "node_of node = Directory (nodes_of ch)"
          by (cases sub) (auto simp: node split: if_splits)
        from wn n have wch: "list_all (\<lambda>(name, n). well_formed n) (nodes_of ch)" by simp
        have f: "find_file (JObj kvs) (name # rest) = find_file (JObj ch) rest"
          using \<open>map_of kvs name = Some node\<close> Some False by (simp add: node sub)
        have l: "lookup (Directory (nodes_of kvs)) (name # rest) = lookup (Directory (nodes_of ch)) rest"
          using mn n by simp
        show ?thesis unfolding f l using Cons.IH [OF wch False] .
      qed
    qed
  qed
qed

text \<open>
  C5, as stated: for every archive, \<open>extract_file\<close> fails with \<open>FileNotFoundError\<close> when
  the path resolves to a node that is not a \<open>File\<close> with an embedded offset. \<open>Asar.open\<close>
  accepts any JSON text as a header and nothing validates it, so this fails on headers
  that are not trees of the format: where \<open>s\<close> is the string \<open>xoffsety\<close> the failure is a
  \<open>TypeError\<close>, and where \<open>d\<close> is a directory that also carries an \<open>offset\<close> and a \<open>size\<close>,
  bytes are returned.
\<close>

theorem extract_file_malformed_counterexample:
  "lookup (node_of (JObj [(files_key, JObj
        [(u ''s'', JStr (u ''xoffsety'')),
         (u ''d'', JObj [(files_key, JObj []), (offset_key, JStr (u ''0'')), (size_key, JNum 3)])])]))
     (split_slash (replace_backslash (u ''s''))) = Some Malformed
   \<and> \<not> is_embedded_file Malformed
   \<and> extract_file \<lparr>path = u ''app.asar'', fp = ''abc'',
        header = JObj [(files_key, JObj
          [(u ''s'', JStr (u ''xoffsety'')),
           (u ''d'', JObj [(files_key, JObj []), (offset_key, JStr (u ''0'')), (size_key, JNum 3)])])],
        base_offset = 0\<rparr> (u ''s'') = Inl TypeError
   \<and> extract_file \<lparr>path = u ''app.asar'', fp = ''abc'',
        header = JObj [(files_key, JObj
          [(u ''s'', JStr (u ''xoffsety'')),
           (u ''d'', JObj [(files_key, JObj []), (offset_key, JStr (u ''0'')), (size_key, JNum 3)])])],
        base_offset = 0\<rparr> (u ''d'') = Inr ''abc''"
  by code_simp

text \<open>
  C5, amended: for every archive whose header is a well-formed tree (every node an
  object, every \<open>files\<close> entry an object, no directory or link with an \<open>offset\<close>) and for
  every path, \<open>extract_file\<close> fails with \<open>FileNotFoundError\<close> whenever \<open>lookup\<close> finds no
  node (a segment is absent, or the path descends into a node that is not a directory)
  or finds a node that is not a \<open>File\<close> with an embedded offset.
\<close>

theorem extract_file_not_found:
  assumes "node_of (header a) = Directory children"
    and "well_formed (Directory children)"
    and "case lookup (Directory children) (split_slash (replace_backslash file_path)) of
           None \<Rightarrow> True | Some n \<Rightarrow> \<not> is_embedded_file n"
  shows "extract_file a file_path = Inl FileNotFoundError"
proof -
  let ?parts = "split_slash (replace_backslash file_path)"
  from assms(1) obtain kvs ch where h: "header a = JObj kvs"
    and f: "map_of kvs files_key = Some (JObj ch)" and c: "children = nodes_of ch"
    by (cases "header a") (auto split: option.splits if_splits json.splits)
  from assms(2) c have wf: "list_all (\<lambda>(name, n). well_formed n) (nodes_of ch)" by simp
  have ne: "?parts \<noteq> []" by (cases "replace_backslash file_path") (auto split: list.splits)
  note fl = find_file_lookup [OF wf ne]
  have g: "py_getitem (header a) files_key = Inr (JObj ch)" by (simp add: h f)
  show ?thesis
  proof (cases "lookup (Directory children) ?parts")
    case None
    then have "find_file (JObj ch) ?parts = Inr None" using fl c by simp
    then show ?thesis by (simp add: extract_file_def Let_def g)
  next
    case (Some n)
    with fl c obtain j where j: "find_file (JObj ch) ?parts = Inr (Some j)"
      and nj: "node_of j = n" and wn: "well_formed n" by auto
    from assms(3) Some have ne: "\<not> is_embedded_file n" by simp
    from wn nj obtain kvs' where jo: "j = JObj kvs'" using well_formed_obj by blast
    have "map_of kvs' offset_key = None"
    proof (cases "map_of kvs' offset_key")
      case (Some off)
      then show ?thesis
        using ne wn nj by (auto simp: jo split: option.splits if_splits json.splits)
    qed simp
    then have "py_in offset_key j = Inr False" by (simp add: jo)
    then show ?thesis using j by (simp add: extract_file_def Let_def g)
  qed
qed


text \<open>
  The archive with the one file \<open>a.txt\<close>: \<open>missing/x.txt\<close> is not found, and neither is
  \<open>a.txt/x\<close>, which descends into a file.
\<close>

theorem extract_file_not_found_witness:
  "extract_file \<lparr>path = u ''app.asar'', fp = [],
       header = dir_node [(u ''a.txt'', file_node 2 0)], base_offset = 60\<rparr> (u ''missing/x.txt'')
     = Inl FileNotFoundError
   \<and> lookup (Directory [(u ''a.txt'', File (Some (JNum 2)) (Some (JStr (u ''0''))))])
         (split_slash (replace_backslash (u ''missing/x.txt''))) = None"
proof -
  let ?a = "\<lparr>path = u ''app.asar'', fp = [],
       header = dir_node [(u ''a.txt'', file_node 2 0)], base_offset = 60\<rparr>"
  let ?ch = "[(u ''a.txt'', File (Some (JNum 2)) (Some (JStr (u ''0''))))]"
  have n: "node_of (header ?a) = Directory ?ch" by code_simp
  have w: "well_formed (Directory ?ch)" by simp
  have l: "lookup (Directory ?ch) (split_slash (replace_backslash (u ''missing/x.txt''))) = None"
    by code_simp
  then have c: "case lookup (Directory ?ch) (split_slash (replace_backslash (u ''missing/x.txt''))) of
                  None \<Rightarrow> True | Some n \<Rightarrow> \<not> is_embedded_file n"
    by simp
  from extract_file_not_found [OF n w c] l show ?thesis by simp
qed

subsection \<open>The offsets the builder assigns\<close>

lemma chain_end_append:
  "chain_end s (a @ b) = (case chain_end s a of None \<Rightarrow> None | Some m \<Rightarrow> chain_end m b)"
  by (induction a arbitrary: s) (auto split: option.splits)

lemma chain_end_contiguous: "chain_end s fs = Some e \<Longrightarrow> contiguous_from s fs"
  by (induction fs arbitrary: s) (auto split: option.splits if_splits)

lemma chain_end_offsets_ge:
  "chain_end s fs = Some e \<Longrightarrow> x \<in> set (offsets_of fs) \<Longrightarrow> \<exists>v. x = Some v \<and> s \<le> v"
proof (induction fs arbitrary: s)
  case (Cons a fs)
  obtain sz off where a: "a = (sz, off)" by (cases a)
  from Cons.prems(1) obtain n where n: "0 \<le> n" "chain_end (s + n) fs = Some e"
    and o: "int_value off = Some s"
    by (auto simp: a split: option.splits if_splits)
  show ?case
  proof (cases "x \<in> set (offsets_of fs)")
    case True
    from Cons.IH [OF n(2) True] n(1) show ?thesis by auto
  next
    case False
    with Cons.prems(2) have "x = int_value off" by (simp add: offsets_of_def a)
    then show ?thesis using o by simp
  qed
qed (simp add: offsets_of_def)

lemma chain_end_non_decreasing: "chain_end s fs = Some e \<Longrightarrow> non_decreasing (offsets_of fs)"
proof (induction fs arbitrary: s)
  case (Cons a fs)
  obtain sz off where a: "a = (sz, off)" by (cases a)
  from Cons.prems(1) obtain n where n: "0 \<le> n" "chain_end (s + n) fs = Some e"
    and o: "int_value off = Some s"
    by (auto simp: a split: option.splits if_splits)
  have "non_decreasing (offsets_of fs)" using Cons.IH [OF n(2)] .
  moreover have "\<forall>x \<in> set (offsets_of fs). case (Some s, x) of (Some x, Some y) \<Rightarrow> x \<le> y | _ \<Rightarrow> False"
    using chain_end_offsets_ge [OF n(2)] n(1) by fastforce
  ultimately show ?case
    using o by (simp add: non_decreasing_def offsets_of_def a)
qed (simp add: non_decreasing_def offsets_of_def)

lemma str_nat_digits: "\<forall>c \<in> set (str_nat n). 48 \<le> c \<and> c \<le> 57"
proof (induction n rule: str_nat.induct)
  case (1 n)
  show ?case
  proof (cases "n < 10")
    case True
    then show ?thesis by (subst str_nat.simps) (simp add: digit_char_def)
  next
    case False
    with 1 have "\<forall>c \<in> set (str_nat (n div 10)). 48 \<le> c \<and> c \<le> 57" by simp
    moreover have "n mod 10 < 10" by simp
    ultimately show ?thesis using False
      by (subst str_nat.simps) (auto simp: digit_char_def)
  qed
qed

lemma str_nat_nonempty: "str_nat n \<noteq> []"
  by (subst str_nat.simps) simp

lemma nat_of_digits_append:
  "nat_of_digits acc b (xs @ [digit_char d]) =
     (case nat_of_digits acc b xs of None \<Rightarrow> None | Some m \<Rightarrow> if d < 10 then Some (10 * m + d) else None)"
  if "xs \<noteq> []" "\<forall>c \<in> set xs. 48 \<le> c \<and> c \<le> 57"
  using that
proof (induction xs arbitrary: acc b)
  case Nil
  then show ?case by simp
next
  case (Cons c xs)
  show ?case
  proof (cases "xs = []")
    case True
    with Cons.prems show ?thesis by (auto simp: digit_char_def)
  next
    case False
    with Cons show ?thesis by simp
  qed
qed

lemma nat_of_digits_str_nat: "nat_of_digits 0 False (str_nat n) = Some n"
proof (induction n rule: str_nat.induct)
  case (1 n)
  show ?case
  proof (cases "n < 10")
    case True
    then show ?thesis by (subst str_nat.simps) (simp add: digit_char_def)
  next
    case False
    with 1 have ih: "nat_of_digits 0 False (str_nat (n div 10)) = Some (n div 10)" by simp
    have "str_nat n = str_nat (n div 10) @ [digit_char (n mod 10)]"
      using False by (subst str_nat.simps) simp
    then show ?thesis
      using nat_of_digits_append [OF str_nat_nonempty, of "n div 10" 0 False "n mod 10"] str_nat_digits ih
      by simp
  qed
qed

lemma strip_digits:
  assumes "s \<noteq> []" "\<forall>c \<in> set s. 48 \<le> c \<and> c \<le> (57::nat)"
  shows "strip s = s"
proof -
  have a: "dropWhile is_space t = t" if "t \<noteq> []" "\<forall>c \<in> set t. 48 \<le> c \<and> c \<le> (57::nat)" for t
    using that by (cases t) (auto simp: is_space_def)
  have "dropWhile is_space (rev s) = rev s" using assms by (intro a) auto
  then show ?thesis using a [OF assms] by (simp add: strip_def)
qed

lemma int_of_str_str_nat: "int_of_str (str_nat n) = Inr (int n)"
proof -
  obtain c r where cr: "str_nat n = c # r" using str_nat_nonempty by (cases "str_nat n") auto
  have d: "\<forall>c \<in> set (str_nat n). 48 \<le> c \<and> c \<le> 57" by (rule str_nat_digits)
  then have c: "c \<noteq> 45" "c \<noteq> 43" by (auto simp: cr)
  have nl: "\<not> list_ex (\<lambda>c. c \<ge> 127 \<or> (c < 32 \<and> \<not> is_space c)) (str_nat n)"
    using d by (auto simp: list_ex_iff)
  have s: "strip (str_nat n) = c # r" using strip_digits [OF str_nat_nonempty d] cr by simp
  have v: "nat_of_digits 0 False (c # r) = Some n" using nat_of_digits_str_nat [of n] cr by simp
  show ?thesis
    unfolding int_of_str_def using nl s v c by simp
qed


lemma nodes_of_append: "nodes_of (a @ b) = nodes_of a @ nodes_of b"
  by (induction a) auto

lemma node_of_dir_node: "node_of (dir_node fs) = Directory (nodes_of fs)"
  by (simp add: dir_node_def files_key_def offset_key_def u_def)

lemma node_of_file_node:
  "node_of (file_node sz off) = File (Some (JNum (int sz))) (Some (JStr (str_nat off)))"
  by (simp add: file_node_def files_key_def offset_key_def size_key_def link_key_def u_def)

lemma node_of_link_node: "node_of (link_node t) = Symlink (JStr t)"
  by (simp add: link_node_def files_key_def offset_key_def link_key_def u_def)

lemma dict_set_new: "k \<notin> fst ` set acc \<Longrightarrow> dict_set acc k v = acc @ [(k, v)]"
  by (induction acc) auto

lemma chain_end_file_node:
  "chain_end (int ofs) (files_in_order (node_of (file_node sz ofs))) = Some (int (ofs + sz))"
  by (simp add: node_of_file_node int_value_def int_of_str_str_nat)

lemma builder_chain:
  "path_to_dict rp pats st dp l = Inr (d, st') \<Longrightarrow> names_distinct l
     \<Longrightarrow> chain_end (int (offset st)) (files_in_order (node_of d)) = Some (int (offset st'))"
  "scan_loop rp pats st dp acc es = Inr (fs, st') \<Longrightarrow> names_distinct_entries es
     \<Longrightarrow> distinct (map entry_name es) \<Longrightarrow> fst ` set acc \<inter> set (map entry_name es) = {}
     \<Longrightarrow> \<exists>new. fs = acc @ new
           \<and> chain_end (int (offset st)) (concat (map (\<lambda>(name, n). files_in_order n) (nodes_of new)))
               = Some (int (offset st'))"
proof (induction rp pats st dp l and rp pats st dp acc es arbitrary: d st' and fs st'
       rule: path_to_dict_scan_loop.induct)
  case (1 realpath pats st dir_path e)
  then show ?case by (auto simp: node_of_dir_node split: if_splits)
next
  case (2 realpath pats st dir_path es)
  from "2.prems"(1) obtain fs where
    s: "scan_loop realpath pats st dir_path [] es = Inr (fs, st')" and d: "d = dir_node fs"
    by (auto split: sum.splits)
  from "2.IH" [OF s] "2.prems"(2) show ?case by (auto simp: d node_of_dir_node)
next
  case (3 realpath pats st dir_path acc)
  then show ?case by simp
next
  case (4 realpath pats st dir_path acc name isdir islink sr sub es)
  let ?p = "path_join dir_path name"
  from "4.prems" have nd: "names_distinct_entries es" and ns: "names_distinct sub"
    and di: "distinct (map entry_name es)" and nn: "name \<notin> set (map entry_name es)"
    and na: "name \<notin> fst ` set acc" and dj: "fst ` set acc \<inter> set (map entry_name es) = {}"
    by auto
  have dj': "fst ` set (dict_set acc name v) \<inter> set (map entry_name es) = {}" for v
    using dj nn by (auto simp: dict_set_new [OF na])
  show ?case
  proof (cases "should_exclude pats ?p")
    case True
    with "4.prems"(1) have s: "scan_loop realpath pats st dir_path acc es = Inr (fs, st')" by simp
    from "4.IH"(1) [OF refl True s nd di dj] show ?thesis .
  next
    case ex: False
    show ?thesis
    proof (cases isdir)
      case True
      with ex "4.prems"(1) obtain d st1 where
        p: "path_to_dict realpath pats st ?p sub = Inr (d, st1)"
        and s: "scan_loop realpath pats st1 dir_path (dict_set acc name d) es = Inr (fs, st')"
        by (auto simp: Let_def split: sum.splits)
      from "4.IH"(2) [OF refl ex True p ns]
      have c1: "chain_end (int (offset st)) (files_in_order (node_of d)) = Some (int (offset st1))" .
      from "4.IH"(3) [OF refl ex True p refl s nd di dj'] obtain new where
        f: "fs = dict_set acc name d @ new"
        and c2: "chain_end (int (offset st1)) (concat (map (\<lambda>(name, n). files_in_order n) (nodes_of new)))
                   = Some (int (offset st'))"
        by blast
      have "fs = acc @ ((name, d) # new)" using f by (simp add: dict_set_new [OF na])
      moreover have "chain_end (int (offset st))
          (concat (map (\<lambda>(name, n). files_in_order n) (nodes_of ((name, d) # new)))) = Some (int (offset st'))"
        using c1 c2 by (simp add: chain_end_append)
      ultimately show ?thesis by blast
    next
      case nodir: False
      show ?thesis
      proof (cases islink)
        case True
        with ex nodir "4.prems"(1) have
          s: "scan_loop realpath pats st dir_path (dict_set acc name (link_node (realpath name))) es
                = Inr (fs, st')"
          by simp
        from "4.IH"(4) [OF refl ex nodir True s nd di dj'] obtain new where
          f: "fs = dict_set acc name (link_node (realpath name)) @ new"
          and c2: "chain_end (int (offset st)) (concat (map (\<lambda>(name, n). files_in_order n) (nodes_of new)))
                     = Some (int (offset st'))"
          by blast
        have "fs = acc @ ((name, link_node (realpath name)) # new)"
          using f by (simp add: dict_set_new [OF na])
        moreover have "chain_end (int (offset st))
            (concat (map (\<lambda>(name, n). files_in_order n)
               (nodes_of ((name, link_node (realpath name)) # new)))) = Some (int (offset st'))"
          using c2 by (simp add: node_of_link_node)
        ultimately show ?thesis by blast
      next
        case nolink: False
        let ?st1 = "st\<lparr>paths := paths st @ [?p]\<rparr>"
        show ?thesis
        proof (cases sr)
          case (StatFail e)
          with ex nodir nolink "4.prems"(1) have "fs = acc" "st' = ?st1"
            by (auto simp: Let_def split: if_splits)
          then show ?thesis by simp
        next
          case (StatOk sz)
          let ?st2 = "?st1\<lparr>offset := offset ?st1 + sz\<rparr>"
          let ?v = "file_node sz (offset ?st1)"
          from StatOk ex nodir nolink "4.prems"(1) have
            s: "scan_loop realpath pats ?st2 dir_path (dict_set acc name ?v) es = Inr (fs, st')"
            by (simp add: Let_def)
          from "4.IH"(5) [OF refl ex nodir nolink refl StatOk s nd di dj'] obtain new where
            f: "fs = dict_set acc name ?v @ new"
            and c2: "chain_end (int (offset ?st2)) (concat (map (\<lambda>(name, n). files_in_order n) (nodes_of new)))
                       = Some (int (offset st'))"
            by blast
          have "fs = acc @ ((name, ?v) # new)" using f by (simp add: dict_set_new [OF na])
          moreover have "chain_end (int (offset st))
              (concat (map (\<lambda>(name, n). files_in_order n) (nodes_of ((name, ?v) # new))))
                = Some (int (offset st'))"
            using c2 chain_end_file_node [of "offset st" sz]
            by (simp add: chain_end_append)
          ultimately show ?thesis by blast
        qed
      qed
    qed
  qed
qed


text \<open>
  C2, as stated: the offsets of the \<open>File\<close> nodes are strictly increasing. It fails where a
  file is empty. The directory \<open>d\<close> holds the empty file \<open>a\<close> and the file \<open>b\<close> of two
  bytes: \<open>a\<close> gets the offset 0 and adds nothing to it, so \<open>b\<close> gets the offset 0 too.
\<close>

theorem empty_file_offsets_counterexample:
  "(case compress id (\<lambda>p. if p = u ''d/a'' then Some [] else Some ''hi'') (u ''d'') []
          (ScanOk [Entry (u ''a'') False False (StatOk 0) (ScanOk []),
                   Entry (u ''b'') False False (StatOk 2) (ScanOk [])]) of
      Inl e \<Rightarrow> False
    | Inr a \<Rightarrow>
        header a = dir_node [(u ''a'', file_node 0 0), (u ''b'', file_node 2 0)]
        \<and> offsets_of (files_in_order (node_of (header a))) = [Some 0, Some 0]
        \<and> \<not> strictly_increasing (offsets_of (files_in_order (node_of (header a)))))"
  by code_simp

text \<open>
  C2, amended: for every directory tree that \<open>compress\<close> packs, the \<open>File\<close> nodes of the
  header, in the order the traversal inserted them, start at the offset 0 and are
  contiguous, each offset being the one before plus the size before; the offsets never
  decrease (and stay equal after an empty file). A directory lists each name once, which
  is \<open>names_distinct\<close>.
\<close>

theorem offsets_contiguous:
  assumes "compress realpath read_file p exclude_patterns root = Inr a"
    and "names_distinct root"
  shows "contiguous_from 0 (files_in_order (node_of (header a)))
       \<and> non_decreasing (offsets_of (files_in_order (node_of (header a))))"
proof -
  from assms(1) obtain st where
    b: "path_to_dict realpath exclude_patterns \<lparr>offset = 0, paths = []\<rparr> p root = Inr (header a, st)"
    by (auto simp: compress_def Let_def split: sum.splits)
  from builder_chain(1) [OF b assms(2)]
  have "chain_end 0 (files_in_order (node_of (header a))) = Some (int (offset st))" by simp
  then show ?thesis
    using chain_end_contiguous chain_end_non_decreasing by blast
qed

text \<open>
  The directory \<open>d\<close> holds the directory \<open>docs\<close> with the file \<open>a.txt\<close> of two bytes, the
  empty file \<open>e\<close> and the file \<open>z\<close> of three bytes: the offsets are 0, 2 and 2.
\<close>

theorem offsets_contiguous_witness:
  "\<exists>a. compress id (\<lambda>p. if p = u ''d/e'' then Some [] else if p = u ''d/z'' then Some ''xyz'' else Some ''hi'')
          (u ''d'') []
          (ScanOk [Entry (u ''docs'') True False (StatOk 0)
                     (ScanOk [Entry (u ''a.txt'') False False (StatOk 2) (ScanOk [])]),
                   Entry (u ''e'') False False (StatOk 0) (ScanOk []),
                   Entry (u ''z'') False False (StatOk 3) (ScanOk [])]) = Inr a
     \<and> offsets_of (files_in_order (node_of (header a))) = [Some 0, Some 2, Some 2]
     \<and> contiguous_from 0 (files_in_order (node_of (header a)))
     \<and> non_decreasing (offsets_of (files_in_order (node_of (header a))))"
proof -
  let ?root = "ScanOk [Entry (u ''docs'') True False (StatOk 0)
                     (ScanOk [Entry (u ''a.txt'') False False (StatOk 2) (ScanOk [])]),
                   Entry (u ''e'') False False (StatOk 0) (ScanOk []),
                   Entry (u ''z'') False False (StatOk 3) (ScanOk [])]"
  let ?c = "compress id (\<lambda>p. if p = u ''d/e'' then Some [] else if p = u ''d/z'' then Some ''xyz'' else Some ''hi'')
          (u ''d'') [] ?root"
  have "case ?c of Inl e \<Rightarrow> False
        | Inr a \<Rightarrow> offsets_of (files_in_order (node_of (header a))) = [Some 0, Some 2, Some 2]"
    by code_simp
  then obtain a where c: "?c = Inr a"
    and o: "offsets_of (files_in_order (node_of (header a))) = [Some 0, Some 2, Some 2]"
    by (auto split: sum.splits)
  have n: "names_distinct ?root" by code_simp
  from offsets_contiguous [OF c n] c o show ?thesis by blast
qed

end
